theory Spec2Isabelle
  imports Complex_Main "HOL-Library.Sublist"
begin

section \<open>Python primitives used by the LEED solver adapter\<close>

text \<open>
  The adapter (\<^verbatim>\<open>src/py2dmat/solver/leed.py\<close>) is written in Python. The builtins it
  calls are modelled here on \<open>string\<close> (a list of characters): \<^verbatim>\<open>str(int)\<close>,
  \<^verbatim>\<open>str.zfill\<close>, the format specification \<^verbatim>\<open>{:08d}\<close>.
\<close>

subsection \<open>Decimal digits, \<^verbatim>\<open>str\<close> of an integer, \<^verbatim>\<open>zfill\<close>\<close>

definition digit_char :: "nat \<Rightarrow> char" where
  "digit_char d = ''0123456789'' ! d"

text \<open>\<^verbatim>\<open>str(n)\<close> for a non-negative integer: the decimal digits, most significant first.\<close>

fun str_nat :: "nat \<Rightarrow> string" where
  "str_nat n = (if n < 10 then [digit_char n] else str_nat (n div 10) @ [digit_char (n mod 10)])"

declare str_nat.simps [simp del]

definition str_int :: "int \<Rightarrow> string" where
  "str_int i = (if i < 0 then CHR ''-'' # str_nat (nat (- i)) else str_nat (nat i))"

text \<open>
  \<^verbatim>\<open>s.zfill(w)\<close>: pads with zeros on the left up to width \<open>w\<close>; a leading sign stays
  in front of the padding. A string that is already \<open>w\<close> long or longer is unchanged.
\<close>

definition zfill :: "nat \<Rightarrow> string \<Rightarrow> string" where
  "zfill w s =
     (case s of
        c # cs \<Rightarrow>
          if c = CHR ''+'' \<or> c = CHR ''-''
          then c # replicate (w - length s) CHR ''0'' @ cs
          else replicate (w - length s) CHR ''0'' @ s
      | [] \<Rightarrow> replicate w CHR ''0'')"

text \<open>
  \<^verbatim>\<open>"{:08d}".format(i)\<close>: the integer in decimal, zero-padded after the sign to a
  minimum width of 8 (a longer number is not cut).
\<close>

definition format_08d :: "int \<Rightarrow> string" where
  "format_08d i = zfill 8 (str_int i)"

section \<open>Workspace directory names\<close>

text \<open>
  \<^verbatim>\<open>Input._pre_dir\<close> computes
  \<^verbatim>\<open>folder_name = "Log{:08d}_{:08d}".format(Log_number, iset)\<close>.
\<close>

definition folder_name :: "int \<Rightarrow> int \<Rightarrow> string" where
  "folder_name Log_number iset = ''Log'' @ format_08d Log_number @ ''_'' @ format_08d iset"

section \<open>Auxiliary functions for the proofs about digit strings\<close>

definition digit_val :: "char \<Rightarrow> nat" where
  "digit_val c = of_char c - 48"

definition nat_of_digits :: "string \<Rightarrow> nat" where
  "nat_of_digits s = foldl (\<lambda>a c. 10 * a + digit_val c) 0 s"

definition is_digit :: "char \<Rightarrow> bool" where
  "is_digit c = (c \<in> set ''0123456789'')"

definition int_of_str :: "string \<Rightarrow> int" where
  "int_of_str s = (case s of c # cs \<Rightarrow> if c = CHR ''-'' then - int (nat_of_digits cs) else int (nat_of_digits s) | [] \<Rightarrow> 0)"

datatype pyfloat = Finite rat | NegZero | PInf | NInf | NaN

definition round_half_even :: "rat \<Rightarrow> int" where
  "round_half_even q =
     (let f = \<lfloor>q\<rfloor>; r = q - of_int f
      in if r < 1 / 2 then f else if 1 / 2 < r then f + 1 else if even f then f else f + 1)"

definition rjust :: "nat \<Rightarrow> string \<Rightarrow> string" where
  "rjust w s = replicate (w - length s) CHR '' '' @ s"

definition fixed4 :: "rat \<Rightarrow> string" where
  "fixed4 a =
     (let n = nat (round_half_even (a * 10000))
      in str_nat (n div 10000) @ ''.'' @ zfill 4 (str_nat (n mod 10000)))"

definition format_7_4f :: "pyfloat \<Rightarrow> string" where
  "format_7_4f x =
     rjust 7
       (case x of
          Finite q \<Rightarrow> if q < 0 then ''-'' @ fixed4 (- q) else fixed4 q
        | NegZero \<Rightarrow> ''-0.0000''
        | PInf \<Rightarrow> ''inf''
        | NInf \<Rightarrow> ''-inf''
        | NaN \<Rightarrow> ''nan'')"

fun replace :: "string \<Rightarrow> string \<Rightarrow> string \<Rightarrow> string" where
  "replace old new [] = (if old = [] then new else [])"
| "replace old new (c # cs) =
     (if old = [] then new @ c # replace old new cs
      else if prefix old (c # cs) then new @ replace old new (drop (length old - 1) cs)
      else c # replace old new cs)"

definition placeholder :: "nat \<Rightarrow> string" where
  "placeholder idx = ''opt'' @ zfill 4 (str_nat idx)"

definition substitute :: "pyfloat list \<Rightarrow> string \<Rightarrow> string" where
  "substitute variables contents =
     fold (\<lambda>(idx, variable) contents.
             replace (placeholder idx) (format_7_4f variable) contents)
       (enumerate 0 variables) contents"

fun contains :: "string \<Rightarrow> string \<Rightarrow> bool" where
  "contains sub [] = (sub = [])"
| "contains sub (c # cs) = (prefix sub (c # cs) \<or> contains sub cs)"

type_synonym template = "string \<times> (nat \<times> string) list"

fun body :: "(nat \<Rightarrow> string) \<Rightarrow> (nat \<times> string) list \<Rightarrow> string" where
  "body f [] = []"
| "body f ((i, l) # segs) = f i @ l @ body f segs"

definition render :: "(nat \<Rightarrow> string) \<Rightarrow> template \<Rightarrow> string" where
  "render f T = fst T @ body f (snd T)"

text \<open>
  A template is written as its first piece of literal text followed by the placeholders,
  each with the literal text after it: \<open>render placeholder T\<close> is the text of the file.
  \<open>tok_here s\<close>: the text \<open>s\<close> starts with a token \<open>optNNNN\<close> (\<open>opt\<close> and four digits);
  \<open>has_token s\<close>: a token occurs somewhere in \<open>s\<close>.
\<close>

definition tok_here :: "string \<Rightarrow> bool" where
  "tok_here s = (prefix ''opt'' s \<and> 4 \<le> length (takeWhile is_digit (drop 3 s)))"

fun has_token :: "string \<Rightarrow> bool" where
  "has_token [] = False"
| "has_token (c # cs) = (tok_here (c # cs) \<or> has_token cs)"

text \<open>
  The literal text of a well-formed template holds no token of its own, and no piece of
  literal text that stands directly before a placeholder ends in \<open>opt\<close> followed by zero
  to three digits (the digits of an inserted value would complete it to a token).
  \<open>opt_closed final u\<close> looks at the text \<open>u\<close> that follows an occurrence of \<open>opt\<close> inside
  a piece of literal text: fewer than four digits follow, and then either a character that
  is not a digit, or the end of the piece when the piece is the last one of the file
  (\<open>final\<close>). Any other occurrence of \<open>opt\<close> in the literal text is allowed.
\<close>

definition opt_closed :: "bool \<Rightarrow> string \<Rightarrow> bool" where
  "opt_closed final u =
     (let d = takeWhile is_digit u in length d < 4 \<and> (length d < length u \<or> final))"

fun literal_ok :: "bool \<Rightarrow> string \<Rightarrow> bool" where
  "literal_ok final [] = True"
| "literal_ok final (c # cs) =
     ((prefix ''opt'' (c # cs) \<longrightarrow> opt_closed final (drop 2 cs)) \<and> literal_ok final cs)"

fun segments_ok :: "(nat \<times> string) list \<Rightarrow> bool" where
  "segments_ok [] = True"
| "segments_ok ((i, l) # segs) = (i < 10000 \<and> literal_ok (segs = []) l \<and> segments_ok segs)"

definition wf_template :: "template \<Rightarrow> bool" where
  "wf_template T = (literal_ok (snd T = []) (fst T) \<and> segments_ok (snd T))"

definition good_start :: "string \<Rightarrow> bool" where
  "good_start b = (case b of [] \<Rightarrow> True | c # _ \<Rightarrow> c \<noteq> CHR ''p'' \<and> c \<noteq> CHR ''t'')"

definition vgood :: "string \<Rightarrow> bool" where
  "vgood v = (v \<noteq> [] \<and> CHR ''o'' \<notin> set v \<and> CHR ''p'' \<notin> set v \<and> CHR ''t'' \<notin> set v)"

definition pending :: "(nat \<Rightarrow> bool) \<Rightarrow> (nat \<Rightarrow> string) \<Rightarrow> nat \<Rightarrow> string" where
  "pending D val j = (if D j then val j else placeholder j)"

definition mark :: "(nat \<Rightarrow> bool) \<Rightarrow> nat \<Rightarrow> nat \<Rightarrow> bool" where
  "mark D i j = (j = i \<or> D j)"

definition upto_done :: "(nat \<Rightarrow> bool) \<Rightarrow> nat \<Rightarrow> nat \<Rightarrow> bool" where
  "upto_done D k j = (D j \<or> j < k)"

section \<open>Errors, configuration values, paths and files\<close>

text \<open>
  Every exception the adapter can raise is a value of \<open>error\<close>; an operation that can
  raise returns \<open>error + 'a\<close> (\<open>Inl\<close> the exception). The strings hold the message of the
  exception, or the missing key of a \<^verbatim>\<open>KeyError\<close>.
\<close>

datatype error =
    FileNotFoundError | IsADirectoryError | NotADirectoryError | FileExistsError
  | DistutilsFileError | IndexError | ValueError | UnboundLocalError | TypeError
  | AttributeError | KeyError string | RuntimeError string | InputError string
  | CalledProcessError

text \<open>The values of the configuration dictionary \<^verbatim>\<open>info.solver\<close> (read from TOML).\<close>

datatype pyval = PyBool bool | PyInt int | PyStr string | PyDict "(string \<times> pyval) list"

text \<open>
  \<^verbatim>\<open>s.split(sep)\<close> for a separator of one character: the fields between the separators;
  a text without separator is one field.
\<close>

fun split_on :: "char \<Rightarrow> string \<Rightarrow> string list" where
  "split_on sep [] = [[]]"
| "split_on sep (c # cs) =
     (if c = sep then [] # split_on sep cs
      else (case split_on sep cs of f # fs \<Rightarrow> (c # f) # fs | [] \<Rightarrow> [[c]]))"

text \<open>\<^verbatim>\<open>os.path.join(a, b)\<close> on POSIX, also used for the operator \<^verbatim>\<open>/\<close> of \<^verbatim>\<open>pathlib\<close>.\<close>

definition os_path_join :: "string \<Rightarrow> string \<Rightarrow> string" where
  "os_path_join a b =
     (if prefix ''/'' b then b
      else if a = [] \<or> last a = CHR ''/'' then a @ b
      else a @ ''/'' @ b)"


text \<open>
  A file system is a list of entries, each a path (the list of its components from the
  root) with a node: a file with its text, or a directory. The root is always a directory.
  There are no symbolic links and no permissions on reading and writing. The text of a
  file is what Python reads in text mode.
\<close>

type_synonym path = "string list"

datatype node = File string | Dir

type_synonym filesystem = "(path \<times> node) list"

definition node_at :: "filesystem \<Rightarrow> path \<Rightarrow> node option" where
  "node_at fs p = (if p = [] then Some Dir else map_of fs p)"

definition put :: "filesystem \<Rightarrow> path \<Rightarrow> node \<Rightarrow> filesystem" where
  "put fs p n = (p, n) # filter (\<lambda>(q, _). q \<noteq> p) fs"

text \<open>
  How the operating system reads a path name: relative to the working directory unless it
  starts with a slash; empty components and \<open>.\<close> are skipped, \<open>..\<close> goes one level up.
\<close>

definition resolve :: "path \<Rightarrow> string \<Rightarrow> path" where
  "resolve wd s =
     foldl (\<lambda>acc c. if c = [] \<or> c = ''.'' then acc
                     else if c = ''..'' then butlast acc else acc @ [c])
       (if prefix ''/'' s then [] else wd) (split_on CHR ''/'' s)"

text \<open>
  The world outside the adapter: the file system, the working directory of the process,
  what has been printed, the commands handed to \<^verbatim>\<open>subprocess\<close>, and the environment
  (\<^verbatim>\<open>PATH\<close>, the home directories by user name with the empty name for the current
  user, the paths with execute permission).
\<close>

record world =
  files :: filesystem
  cwd :: path
  stdout :: "string list"
  calls :: "string list list"
  environ_PATH :: "string option"
  homes :: "(string \<times> string) list"
  executables :: "path list"

definition os_path_exists :: "world \<Rightarrow> string \<Rightarrow> bool" where
  "os_path_exists w s = (node_at (files w) (resolve (cwd w) s) \<noteq> None)"

text \<open>\<^verbatim>\<open>os.access(p, os.X_OK)\<close>.\<close>

definition os_access_x :: "world \<Rightarrow> string \<Rightarrow> bool" where
  "os_access_x w s =
     (node_at (files w) (resolve (cwd w) s) \<noteq> None \<and> resolve (cwd w) s \<in> set (executables w))"

text \<open>\<^verbatim>\<open>open(s, "r")\<close> followed by \<^verbatim>\<open>read()\<close>.\<close>

definition open_read :: "world \<Rightarrow> string \<Rightarrow> error + string" where
  "open_read w s =
     (case node_at (files w) (resolve (cwd w) s) of
        None \<Rightarrow> Inl FileNotFoundError
      | Some Dir \<Rightarrow> Inl IsADirectoryError
      | Some (File c) \<Rightarrow> Inr c)"

text \<open>\<^verbatim>\<open>open(s, "w")\<close> followed by \<^verbatim>\<open>write(c)\<close>: the file is created or replaced.\<close>

definition open_write :: "world \<Rightarrow> string \<Rightarrow> string \<Rightarrow> error + world" where
  "open_write w s c =
     (let p = resolve (cwd w) s in
      case node_at (files w) p of
        Some Dir \<Rightarrow> Inl IsADirectoryError
      | _ \<Rightarrow>
        (case node_at (files w) (butlast p) of
           None \<Rightarrow> Inl FileNotFoundError
         | Some (File _) \<Rightarrow> Inl NotADirectoryError
         | Some Dir \<Rightarrow> Inr (w\<lparr>files := put (files w) p (File c)\<rparr>)))"

text \<open>\<^verbatim>\<open>os.chdir\<close>, to a path name and back to a saved directory.\<close>

definition chdir_to :: "world \<Rightarrow> path \<Rightarrow> error + world" where
  "chdir_to w p =
     (case node_at (files w) p of
        None \<Rightarrow> Inl FileNotFoundError
      | Some (File _) \<Rightarrow> Inl NotADirectoryError
      | Some Dir \<Rightarrow> Inr (w\<lparr>cwd := p\<rparr>))"

definition os_chdir :: "world \<Rightarrow> string \<Rightarrow> error + world" where
  "os_chdir w s = chdir_to w (resolve (cwd w) s)"

text \<open>
  \<^verbatim>\<open>os.makedirs(s, exist_ok=True)\<close>: creates the directory and the missing directories
  above it; \<open>mkdirs fs pre cs\<close> walks down the components \<open>cs\<close> below \<open>pre\<close>.
\<close>

fun mkdirs :: "filesystem \<Rightarrow> path \<Rightarrow> path \<Rightarrow> error + filesystem" where
  "mkdirs fs pre [] = Inr fs"
| "mkdirs fs pre (c # cs) =
     (case node_at fs (pre @ [c]) of
        Some (File _) \<Rightarrow> Inl (if cs = [] then FileExistsError else NotADirectoryError)
      | Some Dir \<Rightarrow> mkdirs fs (pre @ [c]) cs
      | None \<Rightarrow> mkdirs (put fs (pre @ [c]) Dir) (pre @ [c]) cs)"

definition os_makedirs :: "world \<Rightarrow> string \<Rightarrow> error + world" where
  "os_makedirs w s =
     (case mkdirs (files w) [] (resolve (cwd w) s) of
        Inl e \<Rightarrow> Inl e
      | Inr fs \<Rightarrow> Inr (w\<lparr>files := fs\<rparr>))"

text \<open>\<^verbatim>\<open>shutil.rmtree(s)\<close>: removes the directory and everything below it.\<close>

definition shutil_rmtree :: "world \<Rightarrow> string \<Rightarrow> error + world" where
  "shutil_rmtree w s =
     (let p = resolve (cwd w) s in
      case node_at (files w) p of
        None \<Rightarrow> Inl FileNotFoundError
      | Some (File _) \<Rightarrow> Inl NotADirectoryError
      | Some Dir \<Rightarrow> Inr (w\<lparr>files := filter (\<lambda>(q, _). \<not> prefix p q) (files w)\<rparr>))"

text \<open>
  \<^verbatim>\<open>distutils.dir_util.copy_tree(src, dst)\<close>: the source must be a directory; the
  destination and the directories above it are created; every entry below the source is
  copied to the same place below the destination, a file replacing a file of that name
  (a file that meets a directory of its name is copied into that directory). An error of
  the operating system is reported as \<^verbatim>\<open>DistutilsFileError\<close>, with the entries copied so
  far left in place.
\<close>

fun copy_entries :: "filesystem \<Rightarrow> (path \<times> node) list \<Rightarrow> path \<Rightarrow> nat \<Rightarrow> (error + unit) \<times> filesystem" where
  "copy_entries fs [] dp n = (Inr (), fs)"
| "copy_entries fs ((q, nd) # es) dp n =
     (let t = dp @ drop n q in
      case nd of
        Dir \<Rightarrow>
          (case node_at fs t of
             Some (File _) \<Rightarrow> (Inl DistutilsFileError, fs)
           | _ \<Rightarrow> copy_entries (put fs t Dir) es dp n)
      | File c \<Rightarrow>
          (case node_at fs t of
             Some Dir \<Rightarrow>
               (case node_at fs (t @ [last q]) of
                  Some Dir \<Rightarrow> (Inl DistutilsFileError, fs)
                | _ \<Rightarrow> copy_entries (put fs (t @ [last q]) (File c)) es dp n)
           | _ \<Rightarrow> copy_entries (put fs t (File c)) es dp n))"

definition copy_tree :: "world \<Rightarrow> string \<Rightarrow> string \<Rightarrow> (error + unit) \<times> world" where
  "copy_tree w src dst =
     (let sp = resolve (cwd w) src; dp = resolve (cwd w) dst in
      case node_at (files w) sp of
        Some Dir \<Rightarrow>
          (case mkdirs (files w) [] dp of
             Inl e \<Rightarrow> (Inl DistutilsFileError, w)
           | Inr fs \<Rightarrow>
               (let (r, fs') = copy_entries fs (filter (\<lambda>(q, _). strict_prefix sp q) (files w))
                                 dp (length sp)
                in (r, w\<lparr>files := fs'\<rparr>)))
      | _ \<Rightarrow> (Inl DistutilsFileError, w))"

section \<open>Reading a floating-point number\<close>

text \<open>
  \<^verbatim>\<open>float(s)\<close> on a string. A character is a code point below 256. The white space that
  \<^verbatim>\<open>float\<close> strips is tab, line feed, vertical tab, form feed, carriage return, space,
  and the two white-space characters U+0085 and U+00A0.
\<close>

definition is_space :: "char \<Rightarrow> bool" where
  "is_space c =
     (c \<in> set [CHR 0x09, CHR 0x0A, CHR 0x0B, CHR 0x0C, CHR 0x0D, CHR 0x20, CHR 0x85, CHR 0xA0])"

definition strip :: "string \<Rightarrow> string" where
  "strip s = rev (dropWhile is_space (rev (dropWhile is_space s)))"

definition lower :: "char \<Rightarrow> char" where
  "lower c =
     (case map_of (zip ''ABCDEFGHIJKLMNOPQRSTUVWXYZ'' ''abcdefghijklmnopqrstuvwxyz'') c of
        Some d \<Rightarrow> d
      | None \<Rightarrow> c)"

text \<open>
  \<open>digitpart s\<close>: the longest prefix of \<open>s\<close> made of digits, with single underscores
  allowed between two digits; it returns the digits and the rest of the text.
\<close>

function digitpart :: "string \<Rightarrow> string \<times> string" where
  "digitpart [] = ([], [])"
| "digitpart (c # cs) =
     (if \<not> is_digit c then ([], c # cs)
      else (let cs' = (case cs of
                         d # e # _ \<Rightarrow> if d = CHR ''_'' \<and> is_digit e then tl cs else cs
                       | _ \<Rightarrow> cs);
                (ds, r) = digitpart cs'
            in (c # ds, r)))"
  by pat_completeness auto
termination
  by (relation "measure length") (auto split: list.splits)

definition sign_of :: "string \<Rightarrow> bool \<times> string" where
  "sign_of s =
     (case s of
        c # cs \<Rightarrow> if c = CHR ''-'' then (True, cs) else if c = CHR ''+'' then (False, cs)
                  else (False, s)
      | [] \<Rightarrow> (False, s))"

text \<open>The exponent part, which must reach the end of the text: \<open>None\<close> when it is malformed.\<close>

definition exponent :: "string \<Rightarrow> int option" where
  "exponent r =
     (case r of
        [] \<Rightarrow> Some 0
      | c # cs \<Rightarrow>
          if c = CHR ''e'' \<or> c = CHR ''E''
          then (let (neg, ds) = sign_of cs; (ep, rest) = digitpart ds
                in if ep = [] \<or> rest \<noteq> [] then None
                   else Some (if neg then - int (nat_of_digits ep) else int (nat_of_digits ep)))
          else None)"

definition power10 :: "int \<Rightarrow> rat" where
  "power10 e = (if 0 \<le> e then 10 ^ nat e else 1 / 10 ^ nat (- e))"

text \<open>
  The double for a decimal of magnitude \<open>a\<close>: zero when \<open>a\<close> is at most \<open>2^-1075\<close>, infinite
  when \<open>a\<close> is at least \<open>2^1024 - 2^970\<close>, and otherwise the double nearest to \<open>a\<close>, written
  \<open>Finite a\<close>: which double that is (the rounding to 53 bits) is not modelled.
\<close>

definition float_of_magnitude :: "bool \<Rightarrow> rat \<Rightarrow> pyfloat" where
  "float_of_magnitude neg a =
     (if a \<le> 1 / 2 ^ 1075 then (if neg then NegZero else Finite 0)
      else if 2 ^ 1024 - 2 ^ 970 \<le> a then (if neg then NInf else PInf)
      else Finite (if neg then - a else a))"

definition py_float :: "string \<Rightarrow> error + pyfloat" where
  "py_float s =
     (let (neg, r) = sign_of (strip s); lr = map lower r in
      if lr = ''inf'' \<or> lr = ''infinity'' then Inr (if neg then NInf else PInf)
      else if lr = ''nan'' then Inr NaN
      else
        (let (ip, r1) = digitpart r;
             (fp, r2) = (case r1 of
                           c # cs \<Rightarrow> if c = CHR ''.'' then digitpart cs else ([], r1)
                         | [] \<Rightarrow> ([], r1))
         in if ip = [] \<and> fp = [] then Inl ValueError
            else (case exponent r2 of
                    None \<Rightarrow> Inl ValueError
                  | Some e \<Rightarrow>
                      Inr (float_of_magnitude neg
                             (of_nat (nat_of_digits (ip @ fp)) * power10 (e - int (length fp)))))))"

section \<open>The solver object and the messages of the framework\<close>

text \<open>
  The fields of \<^verbatim>\<open>Solver\<close>. \<^verbatim>\<open>root_dir\<close>, \<^verbatim>\<open>proc_dir\<close> and \<^verbatim>\<open>work_dir\<close> come from the
  base class \<^verbatim>\<open>py2dmat.solver.SolverBase\<close>; the three fields of \<^verbatim>\<open>Solver.Input\<close> follow.
\<close>

record solver =
  remove_work_dir :: pyval
  path_to_first_solver :: string
  path_to_second_solver :: string
  path_to_base_dir :: string
  root_dir :: string
  proc_dir :: string
  work_dir :: string
  input_dimension :: pyval
  input_root_dir :: pyval
  input_output_dir :: pyval

record message =
  msg_x :: "pyfloat list"
  msg_step :: int
  msg_set :: int

section \<open>\<^verbatim>\<open>Solver.get_results\<close>\<close>

text \<open>\<^verbatim>\<open>fr.readlines()\<close>: the lines of the text, each with its line feed.\<close>

fun readlines :: "string \<Rightarrow> string list" where
  "readlines [] = []"
| "readlines (c # cs) =
     (if c = CHR 0x0A then [c] # readlines cs
      else (case readlines cs of l # ls \<Rightarrow> (c # l) # ls | [] \<Rightarrow> [[c]]))"

text \<open>\<^verbatim>\<open>float(line.split("=")[1])\<close>: the field after the first \<open>=\<close> of the line, as a number.\<close>

definition rfactor_of_line :: "string \<Rightarrow> error + pyfloat" where
  "rfactor_of_line line =
     (case split_on CHR ''='' line of
        _ # f # _ \<Rightarrow> py_float f
      | _ \<Rightarrow> Inl IndexError)"

text \<open>
  The loop over the lines. \<open>rfactor\<close> is the local variable: \<open>None\<close> while it is unassigned.
  The first line that contains \<^verbatim>\<open>R-FACTOR\<close> assigns it and ends the loop.
\<close>

fun scan_lines :: "string list \<Rightarrow> pyfloat option \<Rightarrow> error + pyfloat option" where
  "scan_lines [] rfactor = Inr rfactor"
| "scan_lines (line # lines) rfactor =
     (if contains ''R-FACTOR'' line
      then (case rfactor_of_line line of Inl e \<Rightarrow> Inl e | Inr v \<Rightarrow> Inr (Some v))
      else scan_lines lines rfactor)"

text \<open>
  \<^verbatim>\<open>get_results\<close>: the marker \<^verbatim>\<open>iv 1\<close> is looked up first; \<^verbatim>\<open>search.s\<close> is then opened
  and scanned whatever the marker said; the workspace is removed when the flag equals
  the string \<^verbatim>\<open>"true"\<close>; at last \<^verbatim>\<open>rfactor\<close> is returned, which raises
  \<^verbatim>\<open>UnboundLocalError\<close> when nothing assigned it.
\<close>

definition get_results :: "solver \<Rightarrow> world \<Rightarrow> (error + pyfloat) \<times> world" where
  "get_results s w =
     (let rfactor = (if \<not> os_path_exists w (os_path_join (work_dir s) ''iv 1'')
                     then Some PInf else None);
          filename = os_path_join (work_dir s) ''search.s''
      in case open_read w filename of
           Inl e \<Rightarrow> (Inl e, w)
         | Inr text \<Rightarrow>
             (case scan_lines (readlines text) rfactor of
                Inl e \<Rightarrow> (Inl e, w)
              | Inr rfactor' \<Rightarrow>
                  (case (if remove_work_dir s = PyStr ''true''
                         then shutil_rmtree w (work_dir s) else Inr w) of
                     Inl e \<Rightarrow> (Inl e, w)
                   | Inr w' \<Rightarrow>
                       (case rfactor' of
                          None \<Rightarrow> (Inl UnboundLocalError, w')
                        | Some v \<Rightarrow> (Inr v, w')))))"

text \<open>An example: a solver object and a prepared workspace with a given \<^verbatim>\<open>search.s\<close>.\<close>

definition example_solver :: "pyval \<Rightarrow> solver" where
  "example_solver flag =
     \<lparr>remove_work_dir = flag, path_to_first_solver = ''/bin/satl1.exe'',
      path_to_second_solver = ''/bin/satl2.exe'', path_to_base_dir = ''ref'', root_dir = ''/r'',
      proc_dir = ''/r/out/0'', work_dir = ''/r/out/0/Log00000003_00000007'',
      input_dimension = PyInt 2, input_root_dir = PyStr ''/r'',
      input_output_dir = PyStr ''/r/out''\<rparr>"

definition example_files :: filesystem where
  "example_files =
     [([''r''], Dir), ([''r'', ''out''], Dir), ([''r'', ''out'', ''0''], Dir),
      ([''r'', ''out'', ''0'', ''Log00000003_00000007''], Dir)]"

definition example_world :: "(string \<times> string) list \<Rightarrow> world" where
  "example_world fs =
     \<lparr>files = example_files
               @ map (\<lambda>(f, c). ([''r'', ''out'', ''0'', ''Log00000003_00000007'', f], File c)) fs,
      cwd = [''r''], stdout = [], calls = [], environ_PATH = None, homes = [],
      executables = []\<rparr>"

section \<open>\<^verbatim>\<open>Solver.Input\<close> and \<^verbatim>\<open>Solver.prepare\<close>\<close>

text \<open>
  \<^verbatim>\<open>Input._pre_dir\<close> creates the directory of that name, relative to the working directory,
  and returns the name; \<^verbatim>\<open>Input.subdir\<close> calls it with the step and the set of the message.
\<close>

definition pre_dir :: "int \<Rightarrow> int \<Rightarrow> world \<Rightarrow> (error + string) \<times> world" where
  "pre_dir Log_number iset w =
     (case os_makedirs w (folder_name Log_number iset) of
        Inl e \<Rightarrow> (Inl e, w)
      | Inr w' \<Rightarrow> (Inr (folder_name Log_number iset), w'))"

definition subdir :: "message \<Rightarrow> world \<Rightarrow> (error + string) \<times> world" where
  "subdir m w = pre_dir (msg_step m) (msg_set m) w"

text \<open>
  \<^verbatim>\<open>Input._write_fit_file\<close>: reads \<^verbatim>\<open>tleed5.i\<close> in the working directory, replaces the
  placeholders, and writes the file back.
\<close>

definition write_fit_file :: "pyfloat list \<Rightarrow> world \<Rightarrow> (error + unit) \<times> world" where
  "write_fit_file variables w =
     (case open_read w ''tleed5.i'' of
        Inl e \<Rightarrow> (Inl e, w)
      | Inr contents \<Rightarrow>
          (case open_write w ''tleed5.i'' (substitute variables contents) of
             Inl e \<Rightarrow> (Inl e, w)
           | Inr w' \<Rightarrow> (Inr (), w')))"

definition input_prepare :: "message \<Rightarrow> world \<Rightarrow> (error + unit) \<times> world" where
  "input_prepare m w = write_fit_file (msg_x m) w"

text \<open>
  \<^verbatim>\<open>Solver.prepare\<close>. The statements run one after the other, and the first exception ends
  the call: there is no \<^verbatim>\<open>try\<close> in the method. The result is the exception or \<open>()\<close>, the
  solver object (\<^verbatim>\<open>work_dir\<close> is assigned) and the world. \<open>cwd0\<close> is the working directory
  saved by \<^verbatim>\<open>os.getcwd()\<close>.
\<close>

definition prepare :: "solver \<Rightarrow> message \<Rightarrow> world \<Rightarrow> (error + unit) \<times> solver \<times> world" where
  "prepare s m w =
     (case subdir m w of
        (Inl e, w1) \<Rightarrow> (Inl e, s, w1)
      | (Inr sub, w1) \<Rightarrow>
          (let s1 = s\<lparr>work_dir := os_path_join (proc_dir s) sub\<rparr> in
           case copy_tree w1 (os_path_join (root_dir s1) (path_to_base_dir s1)) (work_dir s1) of
             (Inl e, w2) \<Rightarrow> (Inl e, s1, w2)
           | (Inr _, w2) \<Rightarrow>
               (let cwd0 = cwd w2 in
                case os_chdir w2 (work_dir s1) of
                  Inl e \<Rightarrow> (Inl e, s1, w2)
                | Inr w3 \<Rightarrow>
                    (case input_prepare m w3 of
                       (Inl e, w4) \<Rightarrow> (Inl e, s1, w4)
                     | (Inr _, w4) \<Rightarrow>
                         (case chdir_to w4 cwd0 of
                            Inl e \<Rightarrow> (Inl e, s1, w4)
                          | Inr w5 \<Rightarrow> (Inr (), s1, w5))))))"

text \<open>
  The statements of \<^verbatim>\<open>prepare\<close> that come before the injection, on their own: the result
  is the saved working directory, with the solver object and the world in which
  \<^verbatim>\<open>self.input.prepare\<close> is then called.
\<close>

definition enter_workspace :: "solver \<Rightarrow> message \<Rightarrow> world \<Rightarrow> (error + path) \<times> solver \<times> world" where
  "enter_workspace s m w =
     (case subdir m w of
        (Inl e, w1) \<Rightarrow> (Inl e, s, w1)
      | (Inr sub, w1) \<Rightarrow>
          (let s1 = s\<lparr>work_dir := os_path_join (proc_dir s) sub\<rparr> in
           case copy_tree w1 (os_path_join (root_dir s1) (path_to_base_dir s1)) (work_dir s1) of
             (Inl e, w2) \<Rightarrow> (Inl e, s1, w2)
           | (Inr _, w2) \<Rightarrow>
               (case os_chdir w2 (work_dir s1) of
                  Inl e \<Rightarrow> (Inl e, s1, w2)
                | Inr w3 \<Rightarrow> (Inr (cwd w2), s1, w3))))"

text \<open>An example: the state before \<^verbatim>\<open>prepare\<close>, with the given files in the reference directory.\<close>

definition example_start :: "(string \<times> string) list \<Rightarrow> world" where
  "example_start fs =
     \<lparr>files = [([''r''], Dir), ([''r'', ''out''], Dir), ([''r'', ''out'', ''0''], Dir),
               ([''r'', ''ref''], Dir)]
               @ map (\<lambda>(f, c). ([''r'', ''ref'', f], File c)) fs,
      cwd = [''r''], stdout = [], calls = [], environ_PATH = None, homes = [],
      executables = []\<rparr>"

definition example_message :: message where
  "example_message = \<lparr>msg_x = [Finite (3 / 2), Finite (- 9 / 4)], msg_step = 3, msg_set = 7\<rparr>"

section \<open>\<^verbatim>\<open>Solver.run\<close>\<close>

text \<open>
  Modelled from the spec: the method \<^verbatim>\<open>_run_by_subprocess\<close> of the base class
  \<^verbatim>\<open>py2dmat.solver.SolverBase\<close>, which is not in this source file. It executes the command
  synchronously; an exit with a status other than zero is the failure
  \<^verbatim>\<open>subprocess.CalledProcessError\<close>. The external program is a parameter: from the command
  and the files it gives its exit status and the files it leaves. Every command that is
  executed is added to \<open>calls\<close>.
\<close>

type_synonym program = "string list \<Rightarrow> filesystem \<Rightarrow> int \<times> filesystem"

definition run_by_subprocess :: "program \<Rightarrow> string list \<Rightarrow> world \<Rightarrow> (error + unit) \<times> world" where
  "run_by_subprocess ext command w =
     (let (status, fs) = ext command (files w);
          w' = w\<lparr>files := fs, calls := calls w @ [command]\<rparr>
      in if status \<noteq> 0 then (Inl CalledProcessError, w') else (Inr (), w'))"

text \<open>The text that \<^verbatim>\<open>run\<close> prints, in UTF-8: ten Japanese characters, "an error occurred".\<close>

definition error_message :: string where
  "error_message =
     [CHR 0xE3, CHR 0x82, CHR 0xA8, CHR 0xE3, CHR 0x83, CHR 0xA9, CHR 0xE3, CHR 0x83, CHR 0xBC,
      CHR 0xE3, CHR 0x81, CHR 0x8C, CHR 0xE7, CHR 0x99, CHR 0xBA, CHR 0xE7, CHR 0x94, CHR 0x9F,
      CHR 0xE3, CHR 0x81, CHR 0x97, CHR 0xE3, CHR 0x81, CHR 0xBE, CHR 0xE3, CHR 0x81, CHR 0x97,
      CHR 0xE3, CHR 0x81, CHR 0x9F]"

text \<open>
  \<^verbatim>\<open>Solver.run\<close>: the two commands in a \<^verbatim>\<open>try\<close> block; \<^verbatim>\<open>CalledProcessError\<close> is
  caught and the message is printed, any other exception goes on to the caller.
\<close>

definition run :: "program \<Rightarrow> solver \<Rightarrow> world \<Rightarrow> (error + unit) \<times> world" where
  "run ext s w =
     (case (case run_by_subprocess ext [path_to_first_solver s] w of
              (Inl e, w1) \<Rightarrow> (Inl e, w1)
            | (Inr _, w1) \<Rightarrow> run_by_subprocess ext [path_to_second_solver s] w1) of
        (Inl e, w2) \<Rightarrow>
          (if e = CalledProcessError then (Inr (), w2\<lparr>stdout := stdout w2 @ [error_message]\<rparr>)
           else (Inl e, w2))
      | (Inr _, w2) \<Rightarrow> (Inr (), w2))"

text \<open>
  An example program: the first solver exits with status \<open>st1\<close> and every other command with
  \<open>st2\<close>; each leaves a file of its own.
\<close>

definition example_program :: "int \<Rightarrow> int \<Rightarrow> program" where
  "example_program st1 st2 command fs =
     (if command = [''/bin/satl1.exe''] then (st1, put fs [''log1''] (File ''1''))
      else (st2, put fs [''log2''] (File ''2'')))"

section \<open>The constructor \<^verbatim>\<open>Solver.__init__\<close>\<close>













text \<open>
  The loop over the root directory and the entries of \<^verbatim>\<open>PATH\<close>: it stops at the first
  candidate that can be executed, and otherwise ends with the last candidate. \<open>cur\<close> is
  the value of the attribute so far.
\<close>

fun search :: "world \<Rightarrow> string list \<Rightarrow> string \<Rightarrow> string \<Rightarrow> string" where
  "search w [] p cur = cur"
| "search w (P # Ps) p cur =
     (if os_access_x w (os_path_join P p) then os_path_join P p
      else search w Ps p (os_path_join P p))"











lemma lt10_cases: "d < 10 \<Longrightarrow> d \<in> {0, 1, 2, 3, 4, 5, 6, 7, 8, 9::nat}"
  by auto

lemma is_digit_digit_char: "d < 10 \<Longrightarrow> is_digit (digit_char d)"
  unfolding is_digit_def digit_char_def by (rule nth_mem) simp

lemma digit_val_digit_char: "d < 10 \<Longrightarrow> digit_val (digit_char d) = d"
  using lt10_cases [of d] by (auto simp: digit_val_def digit_char_def)

lemma str_nat_digits: "list_all is_digit (str_nat n)"
proof (induction n rule: str_nat.induct)
  case (1 n)
  show ?case
  proof (cases "n < 10")
    case True
    then show ?thesis by (simp add: str_nat.simps [of n] is_digit_digit_char)
  next
    case False
    with 1 show ?thesis by (simp add: str_nat.simps [of n] is_digit_digit_char)
  qed
qed

lemma str_nat_nonempty: "str_nat n \<noteq> []"
  by (simp add: str_nat.simps [of n])

lemma nat_of_digits_snoc: "nat_of_digits (s @ [c]) = 10 * nat_of_digits s + digit_val c"
  by (simp add: nat_of_digits_def)

lemma nat_of_digits_str_nat: "nat_of_digits (str_nat n) = n"
proof (induction n rule: str_nat.induct)
  case (1 n)
  show ?case
  proof (cases "n < 10")
    case True
    then show ?thesis
      by (simp add: str_nat.simps [of n] nat_of_digits_def digit_val_digit_char)
  next
    case False
    with 1 have "nat_of_digits (str_nat (n div 10)) = n div 10" by simp
    with False show ?thesis
      by (simp add: str_nat.simps [of n] nat_of_digits_snoc digit_val_digit_char)
  qed
qed

lemma nat_of_digits_zeros: "nat_of_digits (replicate k CHR ''0'' @ s) = nat_of_digits s"
proof (induction k)
  case 0
  show ?case by simp
next
  case (Suc k)
  have "foldl (\<lambda>a c. 10 * a + digit_val c) 0 (CHR ''0'' # replicate k CHR ''0'' @ s)
      = foldl (\<lambda>a c. 10 * a + digit_val c) 0 (replicate k CHR ''0'' @ s)"
    by (simp add: digit_val_def)
  with Suc show ?case by (simp add: nat_of_digits_def)
qed

lemma hd_str_nat_digit: "is_digit (hd (str_nat n))"
  using str_nat_digits [of n] str_nat_nonempty [of n] by (cases "str_nat n") simp_all

lemma zfill_digits:
  assumes "list_all is_digit s" "s \<noteq> []"
  shows "zfill w s = replicate (w - length s) CHR ''0'' @ s"
  using assms by (cases s) (auto simp: zfill_def is_digit_def)

lemma format_08d_nonneg:
  "0 \<le> i \<Longrightarrow> format_08d i = replicate (8 - length (str_nat (nat i))) CHR ''0'' @ str_nat (nat i)"
  by (simp add: format_08d_def str_int_def zfill_digits str_nat_digits str_nat_nonempty)

lemma format_08d_neg:
  "i < 0 \<Longrightarrow> format_08d i = CHR ''-'' # replicate (8 - Suc (length (str_nat (nat (- i))))) CHR ''0'' @ str_nat (nat (- i))"
  by (simp add: format_08d_def str_int_def zfill_def)

lemma int_of_str_format_08d: "int_of_str (format_08d i) = i"
proof (cases "i < 0")
  case True
  then show ?thesis
    by (simp add: format_08d_neg int_of_str_def nat_of_digits_zeros nat_of_digits_str_nat)
next
  case False
  then have nn: "0 \<le> i" by simp
  let ?s = "replicate (8 - length (str_nat (nat i))) CHR ''0'' @ str_nat (nat i)"
  have "list_all is_digit (replicate k CHR ''0'')" for k
    by (induction k) (simp_all add: is_digit_def)
  then have "list_all is_digit ?s"
    by (simp add: str_nat_digits)
  moreover have "?s \<noteq> []" by (simp add: str_nat_nonempty)
  ultimately have "hd ?s \<noteq> CHR ''-''"
    by (cases ?s) (auto simp: is_digit_def)
  moreover have "nat_of_digits ?s = nat i"
    by (simp add: nat_of_digits_zeros nat_of_digits_str_nat)
  ultimately show ?thesis using nn \<open>?s \<noteq> []\<close>
    by (cases ?s) (auto simp add: format_08d_nonneg int_of_str_def)
qed

lemma format_08d_no_underscore: "CHR ''_'' \<notin> set (format_08d i)"
proof -
  have "CHR ''_'' \<notin> set (str_nat n)" for n
    using str_nat_digits [of n] by (auto simp: list_all_iff is_digit_def)
  then show ?thesis
    by (cases "i < 0") (auto simp: format_08d_neg format_08d_nonneg)
qed

lemma folder_name_inj:
  assumes "folder_name s1 t1 = folder_name s2 t2"
  shows "s1 = s2 \<and> t1 = t2"
proof -
  from assms have "format_08d s1 @ CHR ''_'' # format_08d t1 = format_08d s2 @ CHR ''_'' # format_08d t2"
    by (simp add: folder_name_def)
  then have "format_08d s1 = format_08d s2 \<and> format_08d t1 = format_08d t2"
    using append_Cons_eq_iff [of "CHR ''_''" "format_08d s1" "format_08d t1" "format_08d s2" "format_08d t2"]
    by (simp add: format_08d_no_underscore)
  then show ?thesis
    by (metis int_of_str_format_08d)
qed

text \<open>
  Claim C7. The workspace directory name of a (step, set) pair of non-negative integers
  is \<open>Log\<close>, the step zero-padded to at least 8 digits, an underscore, and the set
  zero-padded to at least 8 digits; two different pairs never get the same name.
\<close>

theorem C7_folder_name_injective:
  assumes "0 \<le> s1" and "0 \<le> t1" and "0 \<le> s2" and "0 \<le> t2"
    and "(s1, t1) \<noteq> (s2, t2)"
  shows "folder_name s1 t1 =
           ''Log'' @ replicate (8 - length (str_nat (nat s1))) CHR ''0'' @ str_nat (nat s1)
             @ ''_'' @ replicate (8 - length (str_nat (nat t1))) CHR ''0'' @ str_nat (nat t1)
         \<and> folder_name s1 t1 \<noteq> folder_name s2 t2"
proof
  show "folder_name s1 t1 =
           ''Log'' @ replicate (8 - length (str_nat (nat s1))) CHR ''0'' @ str_nat (nat s1)
             @ ''_'' @ replicate (8 - length (str_nat (nat t1))) CHR ''0'' @ str_nat (nat t1)"
    using assms(1,2) by (simp add: folder_name_def format_08d_nonneg)
next
  show "folder_name s1 t1 \<noteq> folder_name s2 t2"
    using assms(5) folder_name_inj [of s1 t1 s2 t2] by auto
qed

theorem C7_folder_name_injective_witness:
  "(0::int) \<le> 3 \<and> (0::int) \<le> 7 \<and> (0::int) \<le> 8 \<and> (3::int, 7::int) \<noteq> (3, 8)
   \<and> folder_name 3 7 = ''Log00000003_00000007''
   \<and> folder_name 3 7 \<noteq> folder_name 3 8"
proof -
  have s: "str_nat 3 = ''3''" "str_nat 7 = ''7''"
    by (simp_all add: str_nat.simps [of 3] str_nat.simps [of 7] digit_char_def)
  have r: "replicate 7 CHR ''0'' = ''0000000''"
    by (simp add: eval_nat_numeral)
  have p: "(0::int) \<le> 3" "(0::int) \<le> 7" "(0::int) \<le> 8" "(3::int, 7::int) \<noteq> (3, 8)"
    by simp_all
  note h = C7_folder_name_injective [OF p(1) p(2) p(1) p(3) p(4)]
  have a: "folder_name 3 7 = ''Log00000003_00000007''"
    using h [THEN conjunct1] by (simp add: s r)
  have b: "folder_name 3 7 \<noteq> folder_name 3 8"
    by (rule h [THEN conjunct2])
  have c: "(0::int) \<le> 3 \<and> (0::int) \<le> 7 \<and> (0::int) \<le> 8 \<and> (3::int, 7::int) \<noteq> (3, 8)"
    by simp
  from a b c show ?thesis by blast
qed

lemma replace_skip:
  "old \<noteq> [] \<Longrightarrow> \<not> prefix old (c # s) \<Longrightarrow> replace old new (c # s) = c # replace old new s"
  by simp

lemma replace_hit: "old \<noteq> [] \<Longrightarrow> replace old new (old @ s) = new @ replace old new s"
  by (cases old) simp_all

lemma replace_append_skip:
  assumes "old \<noteq> []" and "\<forall>k<length a. \<not> prefix old (drop k a @ b)"
  shows "replace old new (a @ b) = a @ replace old new b"
  using assms(2)
proof (induction a)
  case Nil
  show ?case by simp
next
  case (Cons c a)
  from Cons.prems have "\<not> prefix old (drop 0 (c # a) @ b)" by blast
  then have h: "\<not> prefix old (c # a @ b)" by simp
  have "\<forall>k<length a. \<not> prefix old (drop k a @ b)"
  proof (intro allI impI)
    fix k assume "k < length a"
    then have "Suc k < length (c # a)" by simp
    with Cons.prems have "\<not> prefix old (drop (Suc k) (c # a) @ b)" by blast
    then show "\<not> prefix old (drop k a @ b)" by simp
  qed
  with Cons.IH have "replace old new (a @ b) = a @ replace old new b" by simp
  with h assms(1) show ?case by simp
qed

lemma placeholder_Cons: "placeholder i = CHR ''o'' # CHR ''p'' # CHR ''t'' # zfill 4 (str_nat i)"
  by (simp add: placeholder_def)

lemma placeholder_not_at:
  assumes "k < length v" and "v ! k \<noteq> CHR ''o''"
  shows "\<not> prefix (placeholder i) (drop k v @ b)"
proof -
  from assms(1) have "drop k v = v ! k # drop (Suc k) v"
    by (simp add: Cons_nth_drop_Suc)
  with assms(2) show ?thesis by (simp add: placeholder_Cons)
qed

lemma length_str_nat: "0 < k \<Longrightarrow> n < 10 ^ k \<Longrightarrow> length (str_nat n) \<le> k"
proof (induction n arbitrary: k rule: str_nat.induct)
  case (1 n)
  show ?case
  proof (cases "n < 10")
    case True
    with 1(2) show ?thesis by (simp add: str_nat.simps [of n])
  next
    case False
    with 1(2,3) have "1 < k" by (cases "k = 1") auto
    then obtain k' where k: "k = Suc k'" "0 < k'" by (cases k) auto
    with 1(3) have "n div 10 < 10 ^ k'" by (simp add: less_mult_imp_div_less mult.commute)
    with 1(1) [OF False k(2)] have "length (str_nat (n div 10)) \<le> k'" by simp
    with False k show ?thesis by (simp add: str_nat.simps [of n])
  qed
qed

lemma zfill4_str_nat:
  "zfill 4 (str_nat j) = replicate (4 - length (str_nat j)) CHR ''0'' @ str_nat j"
  by (simp add: zfill_digits str_nat_digits str_nat_nonempty)

lemma length_zfill4: "j < 10000 \<Longrightarrow> length (zfill 4 (str_nat j)) = 4"
  using length_str_nat [of 4 j] by (simp add: zfill4_str_nat)

lemma nat_of_digits_zfill4: "nat_of_digits (zfill 4 (str_nat j)) = j"
  by (simp add: zfill4_str_nat nat_of_digits_zeros nat_of_digits_str_nat)

lemma zfill4_digits: "list_all is_digit (zfill 4 (str_nat j))"
proof -
  have "list_all is_digit (replicate k CHR ''0'')" for k
    by (induction k) (simp_all add: is_digit_def)
  then show ?thesis by (simp add: zfill4_str_nat str_nat_digits)
qed

lemma length_zfill4_ge: "4 \<le> length (zfill 4 (str_nat j))"
  by (simp add: zfill4_str_nat)

lemma placeholder_tok_here:
  assumes "prefix (placeholder i) x"
  shows "tok_here x"
proof -
  let ?z = "zfill 4 (str_nat i)"
  from assms obtain r where x: "x = ''opt'' @ ?z @ r"
    by (auto simp: prefix_def placeholder_def)
  have "\<forall>c\<in>set ?z. is_digit c"
    using zfill4_digits [of i] by (simp add: list_all_iff)
  then have "takeWhile is_digit (?z @ r) = ?z @ takeWhile is_digit r"
    by (intro takeWhile_append2) blast
  then have "4 \<le> length (takeWhile is_digit (drop 3 x))"
    using length_zfill4_ge [of i] by (simp add: x)
  then show ?thesis by (simp add: tok_here_def x)
qed

lemma literal_ok_drop: "literal_ok final l \<Longrightarrow> literal_ok final (drop k l)"
proof (induction l arbitrary: k)
  case Nil
  then show ?case by simp
next
  case (Cons c l)
  then show ?case by (cases k) simp_all
qed

lemma takeWhile_short:
  assumes "length (takeWhile P u) < length u"
  shows "takeWhile P (u @ b) = takeWhile P u"
proof -
  have "\<not> (\<forall>x\<in>set u. P x)"
  proof
    assume "\<forall>x\<in>set u. P x"
    then have "takeWhile P u = u" by (simp add: takeWhile_eq_all_conv)
    with assms show False by simp
  qed
  then obtain x where "x \<in> set u" and "\<not> P x" by blast
  then show ?thesis by (rule takeWhile_append1)
qed

lemma opt_closed_no_tok:
  assumes "opt_closed final u" and "final \<longrightarrow> b = []"
  shows "length (takeWhile is_digit (u @ b)) < 4"
proof (cases "length (takeWhile is_digit u) < length u")
  case True
  then have "takeWhile is_digit (u @ b) = takeWhile is_digit u" by (rule takeWhile_short)
  with assms(1) show ?thesis by (simp add: opt_closed_def Let_def)
next
  case False
  with assms have "b = []" by (simp add: opt_closed_def Let_def)
  with assms(1) show ?thesis by (simp add: opt_closed_def Let_def)
qed

lemma literal_no_tok:
  assumes "literal_ok final l" and "good_start b" and "final \<longrightarrow> b = []" and "l \<noteq> []"
  shows "\<not> tok_here (l @ b)"
proof (cases l)
  case Nil
  with assms(4) show ?thesis by simp
next
  case c1: (Cons c l1)
  show ?thesis
  proof (cases l1)
    case Nil
    with c1 assms(2) show ?thesis by (cases b) (auto simp: good_start_def tok_here_def)
  next
    case c2: (Cons d l2)
    show ?thesis
    proof (cases l2)
      case Nil
      with c1 c2 assms(2) show ?thesis by (cases b) (auto simp: good_start_def tok_here_def)
    next
      case (Cons e u)
      show ?thesis
      proof
        assume t: "tok_here (l @ b)"
        with c1 c2 Cons have p: "prefix ''opt'' (c # d # e # u)"
          by (simp add: tok_here_def)
        with assms(1) c1 c2 Cons have "opt_closed final u" by simp
        from opt_closed_no_tok [OF this assms(3)]
        have "length (takeWhile is_digit (u @ b)) < 4" .
        with t c1 c2 Cons show False by (simp add: tok_here_def)
      qed
    qed
  qed
qed

lemma literal_skip:
  assumes "literal_ok final l" and "good_start b" and "final \<longrightarrow> b = []" and "k < length l"
  shows "\<not> prefix (placeholder i) (drop k l @ b)"
proof
  assume "prefix (placeholder i) (drop k l @ b)"
  then have "tok_here (drop k l @ b)" by (rule placeholder_tok_here)
  moreover from assms(4) have "drop k l \<noteq> []" by simp
  with literal_ok_drop [OF assms(1), of k] assms(2) assms(3)
  have "\<not> tok_here (drop k l @ b)" by (rule literal_no_tok)
  ultimately show False by blast
qed

lemma segments_ok_index: "segments_ok segs \<Longrightarrow> list_all (\<lambda>(j, l). j < 10000) segs"
  by (induction segs) auto

lemma placeholder_other:
  assumes "i < 10000" and "j < 10000" and "i \<noteq> j" and "k < length (placeholder j)"
  shows "\<not> prefix (placeholder i) (drop k (placeholder j) @ b)"
proof (cases k)
  case 0
  show ?thesis
  proof
    assume "prefix (placeholder i) (drop k (placeholder j) @ b)"
    with 0 have "prefix (zfill 4 (str_nat i)) (zfill 4 (str_nat j) @ b)"
      by (simp add: placeholder_def)
    then obtain zs where "zfill 4 (str_nat j) @ b = zfill 4 (str_nat i) @ zs"
      by (auto simp: prefix_def)
    moreover have "length (zfill 4 (str_nat j)) = length (zfill 4 (str_nat i))"
      using assms(1,2) by (simp add: length_zfill4)
    ultimately have "zfill 4 (str_nat j) = zfill 4 (str_nat i)"
      by simp
    then have "nat_of_digits (zfill 4 (str_nat j)) = nat_of_digits (zfill 4 (str_nat i))"
      by simp
    with assms(3) show False by (simp add: nat_of_digits_zfill4)
  qed
next
  case (Suc k')
  have "k' < length (''pt'' @ zfill 4 (str_nat j))"
    using assms(4) Suc by (simp add: placeholder_Cons)
  then have "(''pt'' @ zfill 4 (str_nat j)) ! k' \<in> set (''pt'' @ zfill 4 (str_nat j))"
    by (rule nth_mem)
  then have "placeholder j ! k \<in> set (''pt'' @ zfill 4 (str_nat j))"
    using Suc by (simp add: placeholder_Cons)
  moreover have "CHR ''o'' \<notin> set (zfill 4 (str_nat j))"
    using zfill4_digits [of j] by (auto simp: list_all_iff is_digit_def)
  ultimately have "placeholder j ! k \<noteq> CHR ''o''" by auto
  with assms(4) show ?thesis by (rule placeholder_not_at)
qed

lemma placeholder_nonempty: "placeholder i \<noteq> []"
  by (simp add: placeholder_Cons)

lemma pending_done: "D j \<Longrightarrow> pending D val j = val j"
  by (simp add: pending_def)

lemma pending_todo: "\<not> D j \<Longrightarrow> pending D val j = placeholder j"
  by (simp add: pending_def)

lemma pending_upd_same: "pending (mark D i) val i = val i"
  by (simp add: pending_def mark_def)

lemma pending_upd_other: "j \<noteq> i \<Longrightarrow> pending (mark D i) val j = pending D val j"
  by (simp add: pending_def mark_def)

lemma good_start_pending:
  assumes "vgood (val j)"
  shows "good_start (pending D val j @ b)"
proof (cases "D j")
  case True
  with assms show ?thesis
    by (cases "val j") (auto simp: pending_done good_start_def vgood_def)
next
  case False
  then show ?thesis by (simp add: pending_todo good_start_def placeholder_Cons)
qed

lemma good_start_body:
  assumes "\<forall>j. vgood (val j)"
  shows "good_start (body (pending D val) segs)"
proof (cases segs)
  case Nil
  then show ?thesis by (simp add: good_start_def)
next
  case (Cons a segs')
  obtain j l where "a = (j, l)" by (cases a)
  with Cons assms show ?thesis by (simp add: good_start_pending)
qed

lemma value_skip:
  assumes "vgood v" and "k < length v"
  shows "\<not> prefix (placeholder i) (drop k v @ b)"
proof -
  from assms(2) have "v ! k \<in> set v" by (rule nth_mem)
  with assms(1) have "v ! k \<noteq> CHR ''o''" by (auto simp: vgood_def)
  with assms(2) show ?thesis by (rule placeholder_not_at)
qed

lemma body_step:
  assumes val: "\<forall>j. vgood (val j)"
    and segs: "segments_ok segs"
    and i: "i < 10000 \<or> list_all (\<lambda>(j, l). D j) segs"
  shows "replace (placeholder i) (val i) (body (pending D val) segs)
         = body (pending (mark D i) val) segs"
  using segs i
proof (induction segs)
  case Nil
  show ?case by (simp add: placeholder_nonempty)
next
  case (Cons a segs)
  obtain j l where a: "a = (j, l)" by (cases a)
  let ?old = "placeholder i" and ?rest = "body (pending D val) segs"
  from Cons.prems a have j: "j < 10000" and l: "literal_ok (segs = []) l"
    and segs': "segments_ok segs"
    and i': "i < 10000 \<or> list_all (\<lambda>(j, l). D j) segs"
    by auto
  from Cons.IH [OF segs' i']
  have IH: "replace ?old (val i) ?rest = body (pending (mark D i) val) segs" .
  have fin: "segs = [] \<longrightarrow> ?rest = []" by simp
  have lit: "replace ?old (val i) (l @ ?rest) = l @ replace ?old (val i) ?rest"
    using literal_skip [OF l good_start_body [OF val] fin]
    by (intro replace_append_skip placeholder_nonempty) blast
  show ?case
  proof (cases "D j")
    case True
    have "replace ?old (val i) (val j @ l @ ?rest) = val j @ replace ?old (val i) (l @ ?rest)"
      using value_skip val by (intro replace_append_skip placeholder_nonempty) blast
    moreover have "pending (mark D i) val j = val j"
      using True by (cases "j = i") (simp_all add: pending_upd_same pending_upd_other pending_done)
    ultimately show ?thesis using True a lit IH by (simp add: pending_done)
  next
    case False
    show ?thesis
    proof (cases "j = i")
      case True
      have "replace ?old (val i) (?old @ l @ ?rest) = val i @ replace ?old (val i) (l @ ?rest)"
        by (rule replace_hit) (rule placeholder_nonempty)
      with True False a lit IH show ?thesis by (simp add: pending_todo pending_upd_same)
    next
      case ne: False
      from False Cons.prems(2) a have "i < 10000" by auto
      then have "\<forall>k<length (placeholder j). \<not> prefix ?old (drop k (placeholder j) @ l @ ?rest)"
        using placeholder_other [of i j] j ne by blast
      then have "replace ?old (val i) (placeholder j @ l @ ?rest)
                 = placeholder j @ replace ?old (val i) (l @ ?rest)"
        by (intro replace_append_skip placeholder_nonempty)
      with ne False a lit IH show ?thesis by (simp add: pending_todo pending_upd_other)
    qed
  qed
qed

lemma render_step:
  assumes val: "\<forall>j. vgood (val j)"
    and wf: "wf_template T"
    and i: "i < 10000 \<or> list_all (\<lambda>(j, l). D j) (snd T)"
  shows "replace (placeholder i) (val i) (render (pending D val) T)
         = render (pending (mark D i) val) T"
proof -
  from wf have l0: "literal_ok (snd T = []) (fst T)"
    and segs: "segments_ok (snd T)"
    by (simp_all add: wf_template_def)
  have fin: "snd T = [] \<longrightarrow> body (pending D val) (snd T) = []" by simp
  have "replace (placeholder i) (val i) (fst T @ body (pending D val) (snd T))
        = fst T @ replace (placeholder i) (val i) (body (pending D val) (snd T))"
    using literal_skip [OF l0 good_start_body [OF val] fin]
    by (intro replace_append_skip placeholder_nonempty) blast
  with body_step [OF val segs i] show ?thesis by (simp add: render_def)
qed

lemma mark_upto_done: "mark (upto_done D k) k = upto_done D (Suc k)"
  by (rule ext) (auto simp: mark_def upto_done_def)

lemma upto_done_0: "upto_done D 0 = D"
  by (rule ext) (simp add: upto_done_def)

lemma set_zfill4: "c \<in> set (zfill 4 (str_nat n)) \<Longrightarrow> is_digit c"
  using zfill4_digits [of n] by (simp add: list_all_iff)

lemma set_str_nat: "c \<in> set (str_nat n) \<Longrightarrow> is_digit c"
  using str_nat_digits [of n] by (simp add: list_all_iff)

lemma set_fixed4: "c \<in> set (fixed4 a) \<Longrightarrow> is_digit c \<or> c = CHR ''.''"
  by (auto simp: fixed4_def Let_def dest: set_zfill4 set_str_nat)

lemma fixed4_nonempty: "fixed4 a \<noteq> []"
  by (simp add: fixed4_def Let_def)

lemma set_rjust: "set (rjust w s) \<subseteq> insert CHR '' '' (set s)"
  by (auto simp: rjust_def)

lemma rjust_nonempty: "s \<noteq> [] \<Longrightarrow> rjust w s \<noteq> []"
  by (simp add: rjust_def)

lemma vgood_format_7_4f: "vgood (format_7_4f x)"
proof -
  have d: "is_digit c \<or> c = CHR ''.'' \<Longrightarrow> c \<noteq> CHR ''o'' \<and> c \<noteq> CHR ''p'' \<and> c \<noteq> CHR ''t''" for c
    by (auto simp: is_digit_def)
  have f: "CHR ''o'' \<notin> set (fixed4 a) \<and> CHR ''p'' \<notin> set (fixed4 a) \<and> CHR ''t'' \<notin> set (fixed4 a)" for a
    using d set_fixed4 [of _ a] by blast
  let ?s = "case x of
          Finite q \<Rightarrow> if q < 0 then ''-'' @ fixed4 (- q) else fixed4 q
        | NegZero \<Rightarrow> ''-0.0000''
        | PInf \<Rightarrow> ''inf''
        | NInf \<Rightarrow> ''-inf''
        | NaN \<Rightarrow> ''nan''"
  have "?s \<noteq> [] \<and> CHR ''o'' \<notin> set ?s \<and> CHR ''p'' \<notin> set ?s \<and> CHR ''t'' \<notin> set ?s"
    using f by (cases x) (simp_all add: fixed4_nonempty)
  then have "vgood (rjust 7 ?s)"
    using set_rjust [of 7 ?s] unfolding vgood_def by (auto simp: rjust_nonempty)
  then show ?thesis by (simp add: format_7_4f_def)
qed

lemma substitute_take:
  assumes wf: "wf_template T" and k: "k \<le> length xs"
  shows "fold (\<lambda>(idx, variable) contents.
             replace (placeholder idx) (format_7_4f variable) contents)
           (enumerate 0 (take k xs)) (render (pending D (\<lambda>j. format_7_4f (xs ! j))) T)
         = render (pending (upto_done D k) (\<lambda>j. format_7_4f (xs ! j))) T"
  using k
proof (induction k)
  case 0
  show ?case by (simp add: upto_done_0)
next
  case (Suc k)
  let ?val = "\<lambda>j. format_7_4f (xs ! j)"
  from Suc.prems have k: "k < length xs" by simp
  then have t: "take (Suc k) xs = take k xs @ [xs ! k]"
    by (simp add: take_Suc_conv_app_nth)
  have e: "enumerate 0 (take (Suc k) xs) = enumerate 0 (take k xs) @ [(k, xs ! k)]"
    using k by (simp add: t enumerate_append_eq min_def)
  have val: "\<forall>j. vgood (?val j)" by (simp add: vgood_format_7_4f)
  have side: "k < 10000 \<or> list_all (\<lambda>(j, l). upto_done D k j) (snd T)"
  proof (cases "k < 10000")
    case True
    then show ?thesis by simp
  next
    case False
    have "list_all (\<lambda>(j, l). j < 10000) (snd T)"
      using wf by (simp add: wf_template_def segments_ok_index)
    with False have "list_all (\<lambda>(j, l). upto_done D k j) (snd T)"
      by (auto simp: list_all_iff upto_done_def)
    then show ?thesis by simp
  qed
  from Suc.IH k
  have "fold (\<lambda>(idx, variable) contents.
             replace (placeholder idx) (format_7_4f variable) contents)
           (enumerate 0 (take k xs)) (render (pending D ?val) T)
         = render (pending (upto_done D k) ?val) T" by simp
  moreover have "replace (placeholder k) (?val k) (render (pending (upto_done D k) ?val) T)
        = render (pending (mark (upto_done D k) k) ?val) T"
    by (rule render_step [OF val wf side])
  ultimately show ?case by (simp add: e mark_upto_done)
qed

lemma pending_none: "pending (\<lambda>j. False) val = placeholder"
  by (rule ext) (simp add: pending_def)

lemma substitute_render:
  assumes "wf_template T"
  shows "substitute xs (render placeholder T)
         = render (pending (\<lambda>j. j < length xs) (\<lambda>j. format_7_4f (xs ! j))) T"
proof -
  have "upto_done (\<lambda>j. False) (length xs) = (\<lambda>j. j < length xs)"
    by (rule ext) (simp add: upto_done_def)
  with substitute_take [OF assms, of "length xs" xs "\<lambda>j. False"]
  show ?thesis by (simp add: substitute_def pending_none)
qed

lemma substitute_again:
  assumes "wf_template T"
  shows "substitute xs (render (pending (\<lambda>j. j < length xs) (\<lambda>j. format_7_4f (xs ! j))) T)
         = render (pending (\<lambda>j. j < length xs) (\<lambda>j. format_7_4f (xs ! j))) T"
proof -
  have "upto_done (\<lambda>j. j < length xs) (length xs) = (\<lambda>j. j < length xs)"
    by (rule ext) (simp add: upto_done_def)
  with substitute_take [OF assms, of "length xs" xs "\<lambda>j. j < length xs"]
  show ?thesis by (simp add: substitute_def)
qed

lemma has_token_append:
  assumes "\<forall>k<length a. \<not> tok_here (drop k a @ b)" and "\<not> has_token b"
  shows "\<not> has_token (a @ b)"
  using assms(1)
proof (induction a)
  case Nil
  from assms(2) show ?case by simp
next
  case (Cons c a)
  from Cons.prems have "\<not> tok_here (drop 0 (c # a) @ b)" by blast
  then have h: "\<not> tok_here (c # a @ b)" by simp
  have "\<forall>k<length a. \<not> tok_here (drop k a @ b)"
  proof (intro allI impI)
    fix k assume "k < length a"
    then have "Suc k < length (c # a)" by simp
    with Cons.prems have "\<not> tok_here (drop (Suc k) (c # a) @ b)" by blast
    then show "\<not> tok_here (drop k a @ b)" by simp
  qed
  with Cons.IH have "\<not> has_token (a @ b)" by simp
  with h show ?case by simp
qed

lemma value_no_tok:
  assumes "vgood v" and "k < length v"
  shows "\<not> tok_here (drop k v @ b)"
proof -
  from assms(2) have "v ! k \<in> set v" by (rule nth_mem)
  with assms(1) have "v ! k \<noteq> CHR ''o''" by (auto simp: vgood_def)
  moreover from assms(2) have "drop k v = v ! k # drop (Suc k) v"
    by (simp add: Cons_nth_drop_Suc)
  ultimately show ?thesis by (simp add: tok_here_def)
qed

lemma no_token_body:
  assumes val: "\<forall>j. vgood (val j)"
    and segs: "segments_ok segs"
    and cov: "list_all (\<lambda>(j, l). D j) segs"
  shows "\<not> has_token (body (pending D val) segs)"
  using segs cov
proof (induction segs)
  case Nil
  show ?case by simp
next
  case (Cons a segs)
  obtain j l where a: "a = (j, l)" by (cases a)
  let ?rest = "body (pending D val) segs"
  from Cons.prems a have j: "D j" and l: "literal_ok (segs = []) l"
    and segs': "segments_ok segs" and cov': "list_all (\<lambda>(j, l). D j) segs"
    by auto
  from Cons.IH [OF segs' cov'] have r: "\<not> has_token ?rest" .
  have fin: "segs = [] \<longrightarrow> ?rest = []" by simp
  have "\<forall>k<length l. \<not> tok_here (drop k l @ ?rest)"
  proof (intro allI impI)
    fix k assume "k < length l"
    then have "drop k l \<noteq> []" by simp
    with literal_ok_drop [OF l, of k] good_start_body [OF val, of D segs] fin
    show "\<not> tok_here (drop k l @ ?rest)" by (rule literal_no_tok)
  qed
  then have lr: "\<not> has_token (l @ ?rest)"
    using r by (rule has_token_append)
  from val have "vgood (val j)" by simp
  then have "\<forall>k<length (val j). \<not> tok_here (drop k (val j) @ l @ ?rest)"
    by (intro allI impI value_no_tok)
  then have "\<not> has_token (val j @ l @ ?rest)"
    using lr by (rule has_token_append)
  with a j show ?case by (simp add: pending_done)
qed

lemma no_token_render:
  assumes val: "\<forall>j. vgood (val j)"
    and wf: "wf_template T"
    and cov: "list_all (\<lambda>(j, l). D j) (snd T)"
  shows "\<not> has_token (render (pending D val) T)"
proof -
  let ?rest = "body (pending D val) (snd T)"
  from wf have l0: "literal_ok (snd T = []) (fst T)" and segs: "segments_ok (snd T)"
    by (simp_all add: wf_template_def)
  have r: "\<not> has_token ?rest" by (rule no_token_body [OF val segs cov])
  have fin: "snd T = [] \<longrightarrow> ?rest = []" by simp
  have "\<forall>k<length (fst T). \<not> tok_here (drop k (fst T) @ ?rest)"
  proof (intro allI impI)
    fix k assume "k < length (fst T)"
    then have "drop k (fst T) \<noteq> []" by simp
    with literal_ok_drop [OF l0, of k] good_start_body [OF val, of D "snd T"] fin
    show "\<not> tok_here (drop k (fst T) @ ?rest)" by (rule literal_no_tok)
  qed
  then have "\<not> has_token (fst T @ ?rest)"
    using r by (rule has_token_append)
  then show ?thesis by (simp add: render_def)
qed

lemma contains_placeholder_has_token: "contains (placeholder i) s \<Longrightarrow> has_token s"
proof (induction s)
  case Nil
  then show ?case by (simp add: placeholder_nonempty)
next
  case (Cons c s)
  then show ?case by (auto dest: placeholder_tok_here)
qed

lemma body_cong_done:
  assumes "list_all (\<lambda>(j, l). D j) segs"
  shows "body (pending D val) segs = body val segs"
  using assms by (induction segs) (auto simp: pending_done)

lemma str_nat_small: "n < 10 \<Longrightarrow> str_nat n = [digit_char n]"
  by (simp add: str_nat.simps [of n])

lemma str_nat_big: "\<not> n < 10 \<Longrightarrow> str_nat n = str_nat (n div 10) @ [digit_char (n mod 10)]"
  by (simp add: str_nat.simps [of n])

lemma replicate_numeral: "replicate (numeral k) x = x # replicate (pred_numeral k) x"
  by (simp add: numeral_eq_Suc)

lemmas eval_str = str_nat_small str_nat_big digit_char_def zfill_def placeholder_def replicate_numeral

lemmas eval_format = format_7_4f_def fixed4_def rjust_def round_half_even_def Let_def

lemma nat_of_digits_append:
  "nat_of_digits (a @ b) = nat_of_digits a * 10 ^ length b + nat_of_digits b"
proof (induction b rule: rev_induct)
  case Nil
  show ?case by (simp add: nat_of_digits_def)
next
  case (snoc c b)
  have "nat_of_digits (a @ b @ [c]) = 10 * nat_of_digits (a @ b) + digit_val c"
    using nat_of_digits_snoc [of "a @ b" c] by simp
  with snoc show ?case by (simp add: nat_of_digits_snoc algebra_simps)
qed

lemma round_half_even_nonneg: "0 \<le> a \<Longrightarrow> 0 \<le> round_half_even a"
  by (auto simp: round_half_even_def Let_def)

lemma round_half_even_le:
  assumes "a < of_int m + 1 / 2"
  shows "round_half_even a \<le> m"
proof -
  have f: "\<lfloor>a\<rfloor> \<le> m"
  proof -
    from assms have "a < of_int (m + 1)" by simp
    then have "\<lfloor>a\<rfloor> < m + 1" by (simp only: floor_less_iff)
    then show ?thesis by simp
  qed
  show ?thesis
  proof (cases "\<lfloor>a\<rfloor> = m")
    case True
    with assms have "a - of_int \<lfloor>a\<rfloor> < 1 / 2" by simp
    with True show ?thesis by (simp add: round_half_even_def Let_def)
  next
    case False
    with f have "\<lfloor>a\<rfloor> + 1 \<le> m" by simp
    then show ?thesis by (auto simp: round_half_even_def Let_def)
  qed
qed

lemma length_fixed4:
  "length (fixed4 a) = length (str_nat (nat (round_half_even (a * 10000)) div 10000)) + 5"
  by (simp add: fixed4_def Let_def length_zfill4)

lemma fixed4_shape:
  assumes "0 \<le> a"
  shows "\<exists>ip fr. fixed4 a = ip @ ''.'' @ fr \<and> ip \<noteq> [] \<and> list_all is_digit ip
           \<and> length fr = 4 \<and> list_all is_digit fr
           \<and> int (nat_of_digits (ip @ fr)) = round_half_even (a * 10000)"
proof -
  let ?n = "nat (round_half_even (a * 10000))"
  let ?ip = "str_nat (?n div 10000)" and ?fr = "zfill 4 (str_nat (?n mod 10000))"
  have len: "length ?fr = 4" by (simp add: length_zfill4)
  have "nat_of_digits (?ip @ ?fr) = (?n div 10000) * 10 ^ 4 + ?n mod 10000"
    by (simp only: nat_of_digits_append len nat_of_digits_zfill4 nat_of_digits_str_nat)
  then have "nat_of_digits (?ip @ ?fr) = ?n" by simp
  moreover have "0 \<le> round_half_even (a * 10000)"
    using assms by (intro round_half_even_nonneg) simp
  ultimately have "int (nat_of_digits (?ip @ ?fr)) = round_half_even (a * 10000)" by simp
  moreover have "fixed4 a = ?ip @ ''.'' @ ?fr" by (simp add: fixed4_def Let_def)
  ultimately show ?thesis
    using len str_nat_nonempty str_nat_digits zfill4_digits by blast
qed

lemma format_7_4f_shape:
  "\<exists>ip fr. format_7_4f (Finite q) = rjust 7 ((if q < 0 then ''-'' else []) @ ip @ ''.'' @ fr)
       \<and> ip \<noteq> [] \<and> list_all is_digit ip \<and> length fr = 4 \<and> list_all is_digit fr
       \<and> int (nat_of_digits (ip @ fr)) = round_half_even (\<bar>q\<bar> * 10000)"
proof (cases "q < 0")
  case True
  then have "0 \<le> - q" by simp
  from fixed4_shape [OF this] obtain ip fr where
    "fixed4 (- q) = ip @ ''.'' @ fr" "ip \<noteq> []" "list_all is_digit ip" "length fr = 4"
    "list_all is_digit fr" "int (nat_of_digits (ip @ fr)) = round_half_even (- q * 10000)"
    by blast
  with True have "format_7_4f (Finite q) = rjust 7 ((if q < 0 then ''-'' else []) @ ip @ ''.'' @ fr)
       \<and> ip \<noteq> [] \<and> list_all is_digit ip \<and> length fr = 4 \<and> list_all is_digit fr
       \<and> int (nat_of_digits (ip @ fr)) = round_half_even (\<bar>q\<bar> * 10000)"
    by (simp add: format_7_4f_def abs_if)
  then show ?thesis by blast
next
  case False
  then have "0 \<le> q" by simp
  from fixed4_shape [OF this] obtain ip fr where
    "fixed4 q = ip @ ''.'' @ fr" "ip \<noteq> []" "list_all is_digit ip" "length fr = 4"
    "list_all is_digit fr" "int (nat_of_digits (ip @ fr)) = round_half_even (q * 10000)"
    by blast
  with False have "format_7_4f (Finite q) = rjust 7 ((if q < 0 then ''-'' else []) @ ip @ ''.'' @ fr)
       \<and> ip \<noteq> [] \<and> list_all is_digit ip \<and> length fr = 4 \<and> list_all is_digit fr
       \<and> int (nat_of_digits (ip @ fr)) = round_half_even (\<bar>q\<bar> * 10000)"
    by (simp add: format_7_4f_def abs_if)
  then show ?thesis by blast
qed

lemma length_format_7_4f_ge: "7 \<le> length (format_7_4f x)"
  by (simp add: format_7_4f_def rjust_def)

lemma length_rjust_le: "length s \<le> w \<Longrightarrow> length (rjust w s) = w"
  by (simp add: rjust_def)

lemma length_format_7_4f_eq:
  assumes "- (999995 / 100000) < q" and "q < 9999995 / 100000"
  shows "length (format_7_4f (Finite q)) = 7"
proof (cases "q < 0")
  case True
  from assms(1) have "- q * 10000 < of_int 99999 + 1 / 2" by simp
  then have "round_half_even (- q * 10000) \<le> 99999" by (rule round_half_even_le)
  then have "nat (round_half_even (- q * 10000)) div 10000 < 10 ^ 1" by simp
  then have "length (str_nat (nat (round_half_even (- q * 10000)) div 10000)) \<le> 1"
    by (intro length_str_nat) simp_all
  then have "length (''-'' @ fixed4 (- q)) \<le> 7" by (simp add: length_fixed4)
  with True show ?thesis by (simp add: format_7_4f_def length_rjust_le)
next
  case False
  from assms(2) have "q * 10000 < of_int 999999 + 1 / 2" by simp
  then have "round_half_even (q * 10000) \<le> 999999" by (rule round_half_even_le)
  then have "nat (round_half_even (q * 10000)) div 10000 < 10 ^ 2" by simp
  then have "length (str_nat (nat (round_half_even (q * 10000)) div 10000)) \<le> 2"
    by (intro length_str_nat) simp_all
  then have "length (fixed4 q) \<le> 7" by (simp add: length_fixed4)
  with False show ?thesis by (simp add: format_7_4f_def length_rjust_le)
qed

text \<open>
  Claim C6 (amended). Take a template made of literal text and placeholders \<open>optNNNN\<close>
  (four digits) whose indices are all below the length \<open>N\<close> of the parameter vector, where
  the literal text holds no token of its own and no piece of literal text directly before a
  placeholder ends in \<open>opt\<close> followed by zero to three digits. Then injection replaces every
  occurrence of each placeholder by the formatted value of its parameter, and afterwards
  the file contains no token \<open>optNNNN\<close> at all. A finite value is formatted with exactly
  four digits after the decimal point, correctly rounded (half to even), and
  right-justified in a field of width at least 7: the field is exactly 7 wide when
  \<open>-9.99995 < x < 99.99995\<close> and longer for a larger magnitude; the negative zero gives \<open>-0.0000\<close>.
\<close>

theorem C6_injection_replaces_placeholders:
  assumes "wf_template T"
    and "list_all (\<lambda>(j, l). j < length xs) (snd T)"
  shows "substitute xs (render placeholder T) = render (\<lambda>j. format_7_4f (xs ! j)) T
       \<and> \<not> has_token (substitute xs (render placeholder T))
       \<and> (\<forall>i. \<not> contains (placeholder i) (substitute xs (render placeholder T)))
       \<and> (\<forall>x. 7 \<le> length (format_7_4f x))
       \<and> format_7_4f NegZero = ''-0.0000''
       \<and> (\<forall>q. - (999995 / 100000) < q \<and> q < 9999995 / 100000
              \<longrightarrow> length (format_7_4f (Finite q)) = 7)
       \<and> (\<forall>q. \<exists>ip fr.
              format_7_4f (Finite q) = rjust 7 ((if q < 0 then ''-'' else []) @ ip @ ''.'' @ fr)
              \<and> ip \<noteq> [] \<and> list_all is_digit ip \<and> length fr = 4 \<and> list_all is_digit fr
              \<and> int (nat_of_digits (ip @ fr)) = round_half_even (\<bar>q\<bar> * 10000))"
proof -
  let ?D = "\<lambda>j. j < length xs" and ?val = "\<lambda>j. format_7_4f (xs ! j)"
  have val: "\<forall>j. vgood (?val j)" by (simp add: vgood_format_7_4f)
  have r: "substitute xs (render placeholder T) = render (pending ?D ?val) T"
    by (rule substitute_render [OF assms(1)])
  have "body (pending ?D ?val) (snd T) = body ?val (snd T)"
    by (rule body_cong_done [OF assms(2)])
  then have e: "render (pending ?D ?val) T = render ?val T"
    by (simp add: render_def)
  have "\<not> has_token (render (pending ?D ?val) T)"
    by (rule no_token_render [OF val assms(1) assms(2)])
  then have n: "\<not> has_token (substitute xs (render placeholder T))"
    unfolding r .
  then have c: "\<forall>i. \<not> contains (placeholder i) (substitute xs (render placeholder T))"
    using contains_placeholder_has_token by blast
  have z: "format_7_4f NegZero = ''-0.0000''"
    by (simp add: format_7_4f_def rjust_def)
  from r e n c z show ?thesis
    using length_format_7_4f_ge length_format_7_4f_eq format_7_4f_shape by simp
qed

theorem C6_injection_replaces_placeholders_witness:
  "wf_template (''option '', [(0, '' b ''), (1, '' opt'')])
   \<and> list_all (\<lambda>(j, l). j < length [Finite (3 / 2), Finite (- 9 / 4)])
        (snd (''option '', [(0, '' b ''), (1, '' opt'')]))
   \<and> render placeholder (''option '', [(0, '' b ''), (1, '' opt'')])
        = ''option opt0000 b opt0001 opt''
   \<and> substitute [Finite (3 / 2), Finite (- 9 / 4)] ''option opt0000 b opt0001 opt''
        = ''option  1.5000 b -2.2500 opt''
   \<and> \<not> has_token ''option  1.5000 b -2.2500 opt''
   \<and> length (format_7_4f (Finite (3 / 2))) = 7"
proof -
  let ?T = "(''option '', [(0, '' b ''), (1, '' opt'')]) :: template"
  let ?xs = "[Finite (3 / 2), Finite (- 9 / 4)]"
  have wf: "wf_template ?T"
    by (simp add: wf_template_def opt_closed_def is_digit_def)
  have cov: "list_all (\<lambda>(j, l). j < length ?xs) (snd ?T)" by simp
  have t: "render placeholder ?T = ''option opt0000 b opt0001 opt''"
    by (simp add: render_def eval_str)
  have v: "render (\<lambda>j. format_7_4f (?xs ! j)) ?T = ''option  1.5000 b -2.2500 opt''"
    by (simp add: render_def eval_format eval_str)
  note h = C6_injection_replaces_placeholders [OF wf cov]
  from h have "substitute ?xs (render placeholder ?T) = render (\<lambda>j. format_7_4f (?xs ! j)) ?T"
    by (rule conjunct1)
  then have s: "substitute ?xs (render placeholder ?T) = ''option  1.5000 b -2.2500 opt''"
    by (simp only: v)
  then have a: "substitute ?xs ''option opt0000 b opt0001 opt'' = ''option  1.5000 b -2.2500 opt''"
    by (simp only: t)
  from h have "\<not> has_token (substitute ?xs (render placeholder ?T))"
    by (elim conjE)
  then have b: "\<not> has_token ''option  1.5000 b -2.2500 opt''"
    unfolding s .
  from h have "\<forall>q. - (999995 / 100000) < q \<and> q < 9999995 / 100000
              \<longrightarrow> length (format_7_4f (Finite q)) = 7"
    by (elim conjE)
  then have c: "length (format_7_4f (Finite (3 / 2))) = 7" by simp
  show ?thesis by (rule conjI wf cov t a b c)+
qed

theorem C6_injection_counterexample:
  "substitute [Finite 100] ''opt0000'' = ''100.0000''
   \<and> length (format_7_4f (Finite 100)) = 8
   \<and> substitute [Finite 12] ''opt00opt0000'' = ''opt0012.0000''
   \<and> contains (placeholder 12) (substitute [Finite 12] ''opt00opt0000'')"
  by (simp add: substitute_def eval_format eval_str)

text \<open>
  Claim C8 (amended). For every parameter vector and every template made of literal text
  and placeholders \<open>optNNNN\<close> (four digits), where the literal text holds no token of its own
  and no piece of literal text directly before a placeholder ends in \<open>opt\<close> followed by
  zero to three digits, injecting twice with the same vector gives the same file contents
  as injecting once. Placeholders whose index the vector does not cover stay as they are
  in both passes.
\<close>

theorem C8_injection_idempotent:
  assumes "wf_template T"
  shows "substitute xs (substitute xs (render placeholder T))
         = substitute xs (render placeholder T)"
  by (simp only: substitute_render [OF assms] substitute_again [OF assms])

theorem C8_injection_idempotent_witness:
  "wf_template (''option '', [(0, '' b ''), (7, '' opt1'')])
   \<and> render placeholder (''option '', [(0, '' b ''), (7, '' opt1'')])
        = ''option opt0000 b opt0007 opt1''
   \<and> substitute [Finite (3 / 2)] ''option opt0000 b opt0007 opt1''
        = ''option  1.5000 b opt0007 opt1''
   \<and> substitute [Finite (3 / 2)] (substitute [Finite (3 / 2)] ''option opt0000 b opt0007 opt1'')
        = ''option  1.5000 b opt0007 opt1''"
proof -
  let ?T = "(''option '', [(0, '' b ''), (7, '' opt1'')]) :: template"
  have wf: "wf_template ?T"
    by (simp add: wf_template_def opt_closed_def is_digit_def)
  have t: "render placeholder ?T = ''option opt0000 b opt0007 opt1''"
    by (simp add: render_def eval_str)
  have o: "substitute [Finite (3 / 2)] ''option opt0000 b opt0007 opt1''
           = ''option  1.5000 b opt0007 opt1''"
    by (simp add: substitute_def eval_format eval_str)
  from C8_injection_idempotent [OF wf, of "[Finite (3 / 2)]"]
  have "substitute [Finite (3 / 2)] (substitute [Finite (3 / 2)] ''option opt0000 b opt0007 opt1'')
        = ''option  1.5000 b opt0007 opt1''"
    by (simp only: t o)
  then have tw: "substitute [Finite (3 / 2)]
                   (substitute [Finite (3 / 2)] ''option opt0000 b opt0007 opt1'')
                 = ''option  1.5000 b opt0007 opt1''" .
  show ?thesis by (rule conjI wf t o tw)+
qed

theorem C8_injection_idempotent_counterexample:
  "substitute [Finite 0, Finite 10] ''opt000opt0001'' = ''opt00010.0000''
   \<and> substitute [Finite 0, Finite 10] (substitute [Finite 0, Finite 10] ''opt000opt0001'')
       = ''10.00000.0000''
   \<and> substitute [Finite 0, Finite 10] (substitute [Finite 0, Finite 10] ''opt000opt0001'')
       \<noteq> substitute [Finite 0, Finite 10] ''opt000opt0001''"
  by (simp add: substitute_def eval_format eval_str)

section \<open>Reading the result: \<^verbatim>\<open>get_results\<close>\<close>

lemma scan_lines_none:
  "\<forall>line\<in>set lines. \<not> contains ''R-FACTOR'' line \<Longrightarrow> scan_lines lines r = Inr r"
  by (induction lines) simp_all



lemmas eval_world = os_path_exists_def os_path_join_def resolve_def node_at_def open_read_def
  shutil_rmtree_def example_solver_def example_world_def example_files_def

lemmas eval_float = rfactor_of_line_def py_float_def strip_def is_space_def sign_of_def
  lower_def exponent_def power10_def float_of_magnitude_def is_digit_def nat_of_digits_def
  digit_val_def Let_def

text \<open>
  Claim C5. When \<^verbatim>\<open>search.s\<close> does not exist in the workspace, \<^verbatim>\<open>get_results\<close> raises
  \<^verbatim>\<open>FileNotFoundError\<close> and changes nothing, whether the marker \<^verbatim>\<open>iv 1\<close> is there or not:
  the file is opened without any check, also after the marker was found absent.
\<close>

theorem C5_missing_search_file_raises:
  assumes "node_at (files w) (resolve (cwd w) (os_path_join (work_dir s) ''search.s'')) = None"
  shows "get_results s w = (Inl FileNotFoundError, w)"
  using assms by (simp add: get_results_def open_read_def)

theorem C5_missing_search_file_raises_witness:
  "\<not> os_path_exists (example_world []) (os_path_join (work_dir (example_solver (PyBool False))) ''iv 1'')
   \<and> node_at (files (example_world []))
        (resolve (cwd (example_world []))
           (os_path_join (work_dir (example_solver (PyBool False))) ''search.s'')) = None
   \<and> get_results (example_solver (PyBool False)) (example_world [])
       = (Inl FileNotFoundError, example_world [])"
proof -
  have a: "node_at (files (example_world []))
        (resolve (cwd (example_world []))
           (os_path_join (work_dir (example_solver (PyBool False))) ''search.s'')) = None"
    by (simp add: eval_world)
  have m: "\<not> os_path_exists (example_world [])
               (os_path_join (work_dir (example_solver (PyBool False))) ''iv 1'')"
    by (simp add: eval_world)
  from C5_missing_search_file_raises [OF a] a m show ?thesis by blast
qed

text \<open>
  Claim C4. When the marker \<^verbatim>\<open>iv 1\<close> is present and \<^verbatim>\<open>search.s\<close> has no line that contains
  \<^verbatim>\<open>R-FACTOR\<close>, \<^verbatim>\<open>get_results\<close> returns no number: nothing assigns \<^verbatim>\<open>rfactor\<close>, and the
  call ends in an exception. This is \<^verbatim>\<open>UnboundLocalError\<close>, raised by the final
  \<^verbatim>\<open>return\<close>: with the workspace untouched when the removal is not asked for, and after
  the removal when it is asked for and succeeds.
\<close>

theorem C4_marker_without_rfactor_fails:
  assumes "os_path_exists w (os_path_join (work_dir s) ''iv 1'')"
      and "open_read w (os_path_join (work_dir s) ''search.s'') = Inr text"
      and "\<forall>line\<in>set (readlines text). \<not> contains ''R-FACTOR'' line"
  shows "(\<exists>e. fst (get_results s w) = Inl e)
       \<and> (remove_work_dir s \<noteq> PyStr ''true'' \<longrightarrow> get_results s w = (Inl UnboundLocalError, w))
       \<and> (\<forall>w'. remove_work_dir s = PyStr ''true'' \<and> shutil_rmtree w (work_dir s) = Inr w'
               \<longrightarrow> get_results s w = (Inl UnboundLocalError, w'))"
  using assms
  by (auto simp add: get_results_def scan_lines_none split: sum.splits)

theorem C4_marker_without_rfactor_fails_witness:
  "os_path_exists (example_world [(''search.s'', ''no value'' @ [CHR 0x0A]), (''iv 1'', ''1'')])
     (os_path_join (work_dir (example_solver (PyBool False))) ''iv 1'')
   \<and> get_results (example_solver (PyBool False))
        (example_world [(''search.s'', ''no value'' @ [CHR 0x0A]), (''iv 1'', ''1'')])
       = (Inl UnboundLocalError,
          example_world [(''search.s'', ''no value'' @ [CHR 0x0A]), (''iv 1'', ''1'')])"
proof -
  let ?w = "example_world [(''search.s'', ''no value'' @ [CHR 0x0A]), (''iv 1'', ''1'')]"
  let ?s = "example_solver (PyBool False)"
  have a: "os_path_exists ?w (os_path_join (work_dir ?s) ''iv 1'')"
    by (simp add: eval_world)
  have b: "open_read ?w (os_path_join (work_dir ?s) ''search.s'') = Inr (''no value'' @ [CHR 0x0A])"
    by (simp add: eval_world)
  have c: "\<forall>line\<in>set (readlines (''no value'' @ [CHR 0x0A])). \<not> contains ''R-FACTOR'' line"
    by simp
  have d: "remove_work_dir ?s \<noteq> PyStr ''true''"
    by (simp add: example_solver_def)
  from C4_marker_without_rfactor_fails [OF a b c] d a show ?thesis by blast
qed




lemma map_of_filter_out:
  "\<not> P p \<Longrightarrow> map_of (filter (\<lambda>(q, _). P q) fs) p = None"
  by (induction fs) auto

lemma rmtree_gone:
  assumes "shutil_rmtree w d = Inr w'" and "resolve (cwd w) d \<noteq> []"
  shows "\<not> os_path_exists w' d \<and> cwd w' = cwd w"
proof -
  let ?p = "resolve (cwd w) d"
  from assms(1) have w': "w' = w\<lparr>files := filter (\<lambda>(q, _). \<not> prefix ?p q) (files w)\<rparr>"
    by (auto simp add: shutil_rmtree_def Let_def split: option.splits node.splits)
  have "map_of (filter (\<lambda>(q, _). \<not> prefix ?p q) (files w)) ?p = None"
    by (rule map_of_filter_out) simp
  with assms(2) w' show ?thesis
    by (simp add: os_path_exists_def node_at_def)
qed

text \<open>
  Claim C2, as the code has it. The flag is compared with the string \<^verbatim>\<open>"true"\<close>: for every
  other value of the flag, the boolean \<^verbatim>\<open>True\<close> among them, \<^verbatim>\<open>get_results\<close> leaves the world
  as it found it, so the workspace is still there; only for the string \<^verbatim>\<open>"true"\<close> is the
  workspace gone once \<^verbatim>\<open>get_results\<close> has returned a value.
\<close>

theorem C2_flag_is_compared_with_a_string:
  "(remove_work_dir s \<noteq> PyStr ''true'' \<longrightarrow> snd (get_results s w) = w)
   \<and> (\<forall>v. remove_work_dir s = PyStr ''true'' \<and> resolve (cwd w) (work_dir s) \<noteq> []
            \<and> fst (get_results s w) = Inr v
          \<longrightarrow> \<not> os_path_exists (snd (get_results s w)) (work_dir s))"
proof (intro conjI allI impI)
  assume "remove_work_dir s \<noteq> PyStr ''true''"
  then show "snd (get_results s w) = w"
    by (simp add: get_results_def split: sum.splits option.splits)
next
  fix v
  assume h: "remove_work_dir s = PyStr ''true'' \<and> resolve (cwd w) (work_dir s) \<noteq> []
            \<and> fst (get_results s w) = Inr v"
  then obtain w' where r: "shutil_rmtree w (work_dir s) = Inr w'" and g: "snd (get_results s w) = w'"
    by (auto simp add: get_results_def split: sum.splits option.splits)
  from rmtree_gone [OF r] h g show "\<not> os_path_exists (snd (get_results s w)) (work_dir s)"
    by simp
qed

theorem C2_flag_is_compared_with_a_string_witness:
  "get_results (example_solver (PyBool True))
        (example_world [(''search.s'', ''R-FACTOR = 0.1234'' @ [CHR 0x0A]), (''iv 1'', ''1'')])
      = (Inr (Finite (1234 / 10000)),
         example_world [(''search.s'', ''R-FACTOR = 0.1234'' @ [CHR 0x0A]), (''iv 1'', ''1'')])
   \<and> os_path_exists
        (snd (get_results (example_solver (PyBool True))
           (example_world [(''search.s'', ''R-FACTOR = 0.1234'' @ [CHR 0x0A]), (''iv 1'', ''1'')])))
        (work_dir (example_solver (PyBool True)))
   \<and> \<not> os_path_exists
        (snd (get_results (example_solver (PyStr ''true''))
           (example_world [(''search.s'', ''R-FACTOR = 0.1234'' @ [CHR 0x0A]), (''iv 1'', ''1'')])))
        (work_dir (example_solver (PyStr ''true'')))"
proof -
  let ?w = "example_world [(''search.s'', ''R-FACTOR = 0.1234'' @ [CHR 0x0A]), (''iv 1'', ''1'')]"
  let ?b = "example_solver (PyBool True)"
  let ?t = "example_solver (PyStr ''true'')"
  have f: "fst (get_results ?b ?w) = Inr (Finite (1234 / 10000))"
    by (simp add: get_results_def eval_world eval_float)
  have b: "remove_work_dir ?b \<noteq> PyStr ''true''"
    by (simp add: example_solver_def)
  have e: "os_path_exists ?w (work_dir ?b)"
    by (simp add: eval_world)
  have t: "remove_work_dir ?t = PyStr ''true'' \<and> resolve (cwd ?w) (work_dir ?t) \<noteq> []
           \<and> fst (get_results ?t ?w) = Inr (Finite (1234 / 10000))"
    by (simp add: get_results_def eval_world eval_float)
  note k = C2_flag_is_compared_with_a_string [of ?b ?w, THEN conjunct1, rule_format, OF b]
  note g = C2_flag_is_compared_with_a_string [of ?t ?w, THEN conjunct2, rule_format, OF t]
  from k f have "get_results ?b ?w = (Inr (Finite (1234 / 10000)), ?w)"
    by (simp add: prod_eq_iff)
  with k e g show ?thesis by simp
qed

section \<open>Preparing the workspace: \<^verbatim>\<open>prepare\<close>\<close>

lemma os_makedirs_cwd: "os_makedirs w d = Inr w' \<Longrightarrow> cwd w' = cwd w"
  by (auto simp add: os_makedirs_def split: sum.splits)

lemma subdir_cwd: "cwd (snd (subdir m w)) = cwd w"
  by (auto simp add: subdir_def pre_dir_def os_makedirs_cwd split: sum.splits)

lemma copy_tree_cwd: "cwd (snd (copy_tree w a b)) = cwd w"
  by (auto simp add: copy_tree_def Let_def split: option.splits node.splits sum.splits prod.splits)

lemma os_chdir_cwd: "os_chdir w d = Inr w' \<Longrightarrow> cwd w' = resolve (cwd w) d"
  by (auto simp add: os_chdir_def chdir_to_def split: option.splits node.splits)

lemma chdir_to_cwd: "chdir_to w p = Inr w' \<Longrightarrow> cwd w' = p"
  by (auto simp add: chdir_to_def split: option.splits node.splits)

lemma input_prepare_cwd: "cwd (snd (input_prepare m w)) = cwd w"
  by (auto simp add: input_prepare_def write_fit_file_def open_write_def Let_def
      split: sum.splits option.splits node.splits)

lemma prepare_enter:
  "prepare s m w =
     (case enter_workspace s m w of
        (Inl e, s1, w') \<Rightarrow> (Inl e, s1, w')
      | (Inr cwd0, s1, w3) \<Rightarrow>
          (case input_prepare m w3 of
             (Inl e, w4) \<Rightarrow> (Inl e, s1, w4)
           | (Inr _, w4) \<Rightarrow>
               (case chdir_to w4 cwd0 of
                  Inl e \<Rightarrow> (Inl e, s1, w4)
                | Inr w5 \<Rightarrow> (Inr (), s1, w5))))"
  by (simp add: prepare_def enter_workspace_def Let_def split: prod.splits sum.splits)

lemma enter_workspace_cwd:
  assumes "enter_workspace s m w = (Inr c, s1, w3)"
  shows "c = cwd w \<and> cwd w3 = resolve (cwd w) (work_dir s1)"
proof -
  obtain r1 w1 where a: "subdir m w = (r1, w1)" by (cases "subdir m w")
  with assms obtain sub where r1: "r1 = Inr sub"
    by (cases r1) (auto simp add: enter_workspace_def)
  have c1: "cwd w1 = cwd w" using subdir_cwd [of m w] a by simp
  let ?s1 = "s\<lparr>work_dir := os_path_join (proc_dir s) sub\<rparr>"
  obtain r2 w2 where b: "copy_tree w1 (os_path_join (root_dir ?s1) (path_to_base_dir ?s1)) (work_dir ?s1) = (r2, w2)"
    by (cases "copy_tree w1 (os_path_join (root_dir ?s1) (path_to_base_dir ?s1)) (work_dir ?s1)")
  have c2: "cwd w2 = cwd w1"
    using copy_tree_cwd [of w1 "os_path_join (root_dir ?s1) (path_to_base_dir ?s1)" "work_dir ?s1"] b
    by simp
  from assms a r1 b obtain u where r2: "r2 = Inr u"
    by (cases r2) (auto simp add: enter_workspace_def Let_def)
  from assms a r1 b r2 have d: "os_chdir w2 (work_dir ?s1) = Inr w3 \<and> c = cwd w2 \<and> s1 = ?s1"
    by (auto simp add: enter_workspace_def Let_def split: sum.splits)
  with os_chdir_cwd [of w2 "work_dir ?s1" w3] c1 c2 show ?thesis by simp
qed

text \<open>
  Claim C3, as the code has it. \<^verbatim>\<open>prepare\<close> restores the working directory only when it
  returns normally: then the working directory is the one of before the call. When the
  injection raises an error, the error goes to the caller as it is and the working
  directory stays at the workspace: nothing in \<^verbatim>\<open>prepare\<close> catches the error or runs on
  the way out.
\<close>

theorem C3_prepare_restores_only_on_success:
  "(fst (prepare s m w) = Inr () \<longrightarrow> cwd (snd (snd (prepare s m w))) = cwd w)
   \<and> (\<forall>e. (\<exists>c. fst (enter_workspace s m w) = Inr c)
            \<and> fst (input_prepare m (snd (snd (enter_workspace s m w)))) = Inl e
          \<longrightarrow> fst (prepare s m w) = Inl e
              \<and> cwd (snd (snd (prepare s m w)))
                  = resolve (cwd w) (work_dir (fst (snd (prepare s m w)))))"
proof (rule conjI)
 show "fst (prepare s m w) = Inr () \<longrightarrow> cwd (snd (snd (prepare s m w))) = cwd w"
 proof (rule impI)
  assume ok: "fst (prepare s m w) = Inr ()"
  obtain r s1 w3 where ew: "enter_workspace s m w = (r, s1, w3)"
    by (cases "enter_workspace s m w")
  with ok obtain c where r: "r = Inr c"
    by (cases r) (auto simp add: prepare_enter)
  obtain r4 w4 where ip: "input_prepare m w3 = (r4, w4)" by (cases "input_prepare m w3")
  with ok ew r obtain u where r4: "r4 = Inr u"
    by (cases r4) (auto simp add: prepare_enter)
  from ok ew r ip r4 obtain w5 where w5: "chdir_to w4 c = Inr w5" and res: "prepare s m w = (Inr (), s1, w5)"
    by (auto simp add: prepare_enter split: sum.splits)
  from enter_workspace_cwd ew r have "c = cwd w" by blast
  with chdir_to_cwd [OF w5] res show "cwd (snd (snd (prepare s m w))) = cwd w" by simp
 qed
next
 show "\<forall>e. (\<exists>c. fst (enter_workspace s m w) = Inr c)
            \<and> fst (input_prepare m (snd (snd (enter_workspace s m w)))) = Inl e
          \<longrightarrow> fst (prepare s m w) = Inl e
              \<and> cwd (snd (snd (prepare s m w)))
                  = resolve (cwd w) (work_dir (fst (snd (prepare s m w))))"
 proof (intro allI impI)
  fix e
  assume h: "(\<exists>c. fst (enter_workspace s m w) = Inr c)
            \<and> fst (input_prepare m (snd (snd (enter_workspace s m w)))) = Inl e"
  then obtain c s1 w3 where ew: "enter_workspace s m w = (Inr c, s1, w3)"
    by (cases "enter_workspace s m w") auto
  obtain r4 w4 where ip: "input_prepare m w3 = (r4, w4)" by (cases "input_prepare m w3")
  with h ew have r4: "r4 = Inl e" by simp
  from ew ip r4 have res: "prepare s m w = (Inl e, s1, w4)"
    by (simp add: prepare_enter)
  have "cwd w4 = cwd w3" using input_prepare_cwd [of m w3] ip by simp
  with enter_workspace_cwd [OF ew] res
  show "fst (prepare s m w) = Inl e
              \<and> cwd (snd (snd (prepare s m w)))
                  = resolve (cwd w) (work_dir (fst (snd (prepare s m w))))"
    by simp
 qed
qed

lemmas eval_fs = os_path_join_def resolve_def node_at_def open_read_def open_write_def put_def
  os_makedirs_def os_chdir_def chdir_to_def copy_tree_def example_solver_def example_start_def
  example_message_def Let_def

lemmas eval_prepare = prepare_def enter_workspace_def subdir_def pre_dir_def input_prepare_def
  write_fit_file_def folder_name_def format_08d_def str_int_def

theorem C3_prepare_restores_only_on_success_witness:
  "cwd (snd (snd (prepare (example_solver (PyBool False)) example_message
          (example_start [(''tleed5.i'', ''a opt0000 b'')])))) = [''r'']
   \<and> fst (prepare (example_solver (PyBool False)) example_message
             (example_start [(''exp.d'', ''x'')])) = Inl FileNotFoundError
   \<and> cwd (snd (snd (prepare (example_solver (PyBool False)) example_message
             (example_start [(''exp.d'', ''x'')]))))
       = [''r'', ''out'', ''0'', ''Log00000003_00000007'']"
proof -
  let ?s = "example_solver (PyBool False)"
  let ?g = "example_start [(''tleed5.i'', ''a opt0000 b'')]"
  let ?b = "example_start [(''exp.d'', ''x'')]"
  have ok: "fst (prepare ?s example_message ?g) = Inr ()"
    by (simp add: eval_prepare eval_fs eval_str eval_format substitute_def)
  have c: "cwd ?g = [''r'']" "cwd ?b = [''r'']"
    by (simp_all add: example_start_def)
  have h: "(\<exists>c. fst (enter_workspace ?s example_message ?b) = Inr c)
            \<and> fst (input_prepare example_message (snd (snd (enter_workspace ?s example_message ?b))))
                = Inl FileNotFoundError"
    by (simp add: eval_prepare eval_fs eval_str)
  have wd: "work_dir (fst (snd (prepare ?s example_message ?b))) = ''/r/out/0/Log00000003_00000007''"
    by (simp add: eval_prepare eval_fs eval_str)
  have rs: "resolve [''r''] ''/r/out/0/Log00000003_00000007'' = [''r'', ''out'', ''0'', ''Log00000003_00000007'']"
    by (simp add: resolve_def)
  note a = C3_prepare_restores_only_on_success [of ?s example_message ?g, THEN conjunct1, rule_format, OF ok]
  note b = C3_prepare_restores_only_on_success [of ?s example_message ?b, THEN conjunct2, rule_format, OF h]
  from a b c wd rs show ?thesis by simp
qed

theorem C3_prepare_counterexample:
  "cwd (example_start [(''exp.d'', ''x'')]) = [''r'']
   \<and> fst (input_prepare example_message
            (snd (snd (enter_workspace (example_solver (PyBool False)) example_message
                         (example_start [(''exp.d'', ''x'')])))))
       = Inl FileNotFoundError
   \<and> fst (prepare (example_solver (PyBool False)) example_message
             (example_start [(''exp.d'', ''x'')])) = Inl FileNotFoundError
   \<and> cwd (snd (snd (prepare (example_solver (PyBool False)) example_message
             (example_start [(''exp.d'', ''x'')]))))
       = [''r'', ''out'', ''0'', ''Log00000003_00000007'']"
  by (simp add: eval_prepare eval_fs eval_str)

section \<open>Running the solvers: \<^verbatim>\<open>run\<close>\<close>

lemma run_first_fails:
  assumes "fst (ext [path_to_first_solver s] (files w)) \<noteq> 0"
  shows "run ext s w =
           (Inr (), w\<lparr>files := snd (ext [path_to_first_solver s] (files w)),
                       calls := calls w @ [[path_to_first_solver s]],
                       stdout := stdout w @ [error_message]\<rparr>)"
  using assms
  by (cases "ext [path_to_first_solver s] (files w)")
     (simp add: run_def run_by_subprocess_def Let_def)

lemma run_second_fails:
  assumes "fst (ext [path_to_first_solver s] (files w)) = 0"
      and "fst (ext [path_to_second_solver s] (snd (ext [path_to_first_solver s] (files w)))) \<noteq> 0"
  shows "run ext s w =
           (Inr (), w\<lparr>files := snd (ext [path_to_second_solver s]
                                       (snd (ext [path_to_first_solver s] (files w)))),
                       calls := calls w @ [[path_to_first_solver s], [path_to_second_solver s]],
                       stdout := stdout w @ [error_message]\<rparr>)"
proof -
  obtain fs where a: "ext [path_to_first_solver s] (files w) = (0, fs)"
    using assms(1) by (cases "ext [path_to_first_solver s] (files w)") simp
  obtain st fs' where b: "ext [path_to_second_solver s] fs = (st, fs')"
    by (cases "ext [path_to_second_solver s] fs")
  from assms(2) a b have "st \<noteq> 0" by simp
  with a b show ?thesis
    by (simp add: run_def run_by_subprocess_def Let_def)
qed

lemma run_returns: "fst (run ext s w) = Inr ()"
proof -
  obtain st fs where a: "ext [path_to_first_solver s] (files w) = (st, fs)"
    by (cases "ext [path_to_first_solver s] (files w)")
  obtain st' fs' where b: "ext [path_to_second_solver s] fs = (st', fs')"
    by (cases "ext [path_to_second_solver s] fs")
  from a b show ?thesis
    by (simp add: run_def run_by_subprocess_def Let_def)
qed

text \<open>
  Claim C10. \<^verbatim>\<open>run\<close> always returns normally. When the first solver exits with a status
  other than zero, the message is printed, and the first command is the only one that was
  executed: the second solver is not invoked. When the first solver exits with zero and
  the second with another status, both were executed and the message is printed. Nothing
  but the printed message tells the caller of the failure.
\<close>

theorem C10_solver_failure_is_only_logged:
  "fst (run ext s w) = Inr ()
   \<and> (fst (ext [path_to_first_solver s] (files w)) \<noteq> 0
        \<longrightarrow> calls (snd (run ext s w)) = calls w @ [[path_to_first_solver s]]
            \<and> files (snd (run ext s w)) = snd (ext [path_to_first_solver s] (files w))
            \<and> stdout (snd (run ext s w)) = stdout w @ [error_message])
   \<and> (fst (ext [path_to_first_solver s] (files w)) = 0
        \<and> fst (ext [path_to_second_solver s] (snd (ext [path_to_first_solver s] (files w)))) \<noteq> 0
        \<longrightarrow> calls (snd (run ext s w))
              = calls w @ [[path_to_first_solver s], [path_to_second_solver s]]
            \<and> stdout (snd (run ext s w)) = stdout w @ [error_message])"
  using run_first_fails [of ext s w] run_second_fails [of ext s w] run_returns [of ext s w]
  by simp

theorem C10_solver_failure_is_only_logged_witness:
  "run (example_program 1 0) (example_solver (PyBool False)) (example_start [])
     = (Inr (), (example_start [])
          \<lparr>files := put (files (example_start [])) [''log1''] (File ''1''),
            calls := [[''/bin/satl1.exe'']], stdout := [error_message]\<rparr>)
   \<and> fst (run (example_program 0 2) (example_solver (PyBool False)) (example_start [])) = Inr ()
   \<and> calls (snd (run (example_program 0 2) (example_solver (PyBool False)) (example_start [])))
       = [[''/bin/satl1.exe''], [''/bin/satl2.exe'']]
   \<and> stdout (snd (run (example_program 0 2) (example_solver (PyBool False)) (example_start [])))
       = [error_message]"
proof -
  let ?s = "example_solver (PyBool False)"
  let ?w = "example_start []"
  have p: "path_to_first_solver ?s = ''/bin/satl1.exe''" "path_to_second_solver ?s = ''/bin/satl2.exe''"
    by (simp_all add: example_solver_def)
  have i: "calls ?w = []" "stdout ?w = []"
    by (simp_all add: example_start_def)
  have a: "fst (example_program 1 0 [path_to_first_solver ?s] (files ?w)) \<noteq> 0"
    by (simp add: example_program_def p)
  have a2: "snd (example_program 1 0 [path_to_first_solver ?s] (files ?w))
              = put (files ?w) [''log1''] (File ''1'')"
    by (simp add: example_program_def p)
  have b: "fst (example_program 0 2 [path_to_first_solver ?s] (files ?w)) = 0
        \<and> fst (example_program 0 2 [path_to_second_solver ?s]
                 (snd (example_program 0 2 [path_to_first_solver ?s] (files ?w)))) \<noteq> 0"
    by (simp add: example_program_def p)
  note t1 = C10_solver_failure_is_only_logged [of "example_program 1 0" ?s ?w]
  note t2 = C10_solver_failure_is_only_logged [of "example_program 0 2" ?s ?w]
  note f = t1 [THEN conjunct2, THEN conjunct1, rule_format, OF a]
  note g = t2 [THEN conjunct2, THEN conjunct2, rule_format, OF b]
  have r1: "run (example_program 1 0) ?s ?w
     = (Inr (), ?w\<lparr>files := put (files ?w) [''log1''] (File ''1''),
            calls := [[''/bin/satl1.exe'']], stdout := [error_message]\<rparr>)"
    using t1 [THEN conjunct1] f a2 p i
    by (simp add: prod_eq_iff run_def run_by_subprocess_def example_program_def Let_def)
  from r1 t2 [THEN conjunct1] g p i show ?thesis by simp
qed

section \<open>The check of the reference directory in the constructor\<close>









end
